theory Spec2Isabelle
  imports Complex_Main "HOL-Library.Log_Nat"
begin

section \<open>Vectors of the rendering library\<close>

text \<open>
  The scene of \<^verbatim>\<open>src/grafkom/src/main.ts\<close> is built from three.js objects. The
  only part of the library the program's logic depends on is \<^verbatim>\<open>THREE.Vector3\<close>: a
  mutable object with three number fields whose methods \<^verbatim>\<open>copy\<close>, \<^verbatim>\<open>add\<close>,
  \<^verbatim>\<open>multiplyScalar\<close>, \<^verbatim>\<open>normalize\<close> overwrite the receiver and return it, while
  \<^verbatim>\<open>clone\<close> allocates a new object. The value of a vector is modelled by the
  datatype below and the objects by references into a store (next section).
  JavaScript numbers are idealised as real numbers in this first model; a second model,
  in which every arithmetic result is rounded to a double, follows it.
\<close>

datatype Vector3 = Vector3 (vx: real) (vy: real) (vz: real)

definition length_vec :: "Vector3 \<Rightarrow> real" where
  "length_vec v = sqrt (vx v * vx v + vy v * vy v + vz v * vz v)"

definition multiplyScalar :: "Vector3 \<Rightarrow> real \<Rightarrow> Vector3" where
  "multiplyScalar v k = Vector3 (vx v * k) (vy v * k) (vz v * k)"

definition divideScalar :: "Vector3 \<Rightarrow> real \<Rightarrow> Vector3" where
  "divideScalar v k = multiplyScalar v (1 / k)"

text \<open>\<^verbatim>\<open>normalize() { return this.divideScalar( this.length() || 1 ); }\<close>\<close>

definition normalize_vec :: "Vector3 \<Rightarrow> Vector3" where
  "normalize_vec v = divideScalar v (if length_vec v = 0 then 1 else length_vec v)"

definition add_vec :: "Vector3 \<Rightarrow> Vector3 \<Rightarrow> Vector3" where
  "add_vec v w = Vector3 (vx v + vx w) (vy v + vy w) (vz v + vz w)"

definition sub_vec :: "Vector3 \<Rightarrow> Vector3 \<Rightarrow> Vector3" where
  "sub_vec v w = Vector3 (vx v - vx w) (vy v - vy w) (vz v - vz w)"

definition distanceToSquared :: "Vector3 \<Rightarrow> Vector3 \<Rightarrow> real" where
  "distanceToSquared v w =
     (let dx = vx v - vx w; dy = vy v - vy w; dz = vz v - vz w
      in dx * dx + dy * dy + dz * dz)"

definition distanceTo :: "Vector3 \<Rightarrow> Vector3 \<Rightarrow> real" where
  "distanceTo v w = sqrt (distanceToSquared v w)"

section \<open>Program state\<close>

text \<open>
  A reference names one \<^verbatim>\<open>Vector3\<close> object. Every \<^verbatim>\<open>Object3D\<close> (mesh, camera,
  light) owns one position vector for its whole life, so an object of the scene is named
  by the reference of its position vector.
\<close>

type_synonym ref = nat

text \<open>\<^verbatim>\<open>class Projectile { mesh; direction; alive }\<close>\<close>

record Projectile =
  mesh :: ref
  direction :: ref
  alive :: bool

text \<open>
  The module-level variables. \<open>heap\<close> holds the value of every vector object and
  \<open>fresh\<close> is the next unused reference; \<open>scene\<close> is \<^verbatim>\<open>scene.children\<close>. The
  vectors held by the shader uniforms are only ever the target of \<^verbatim>\<open>copy\<close>, so they
  are kept by value.
\<close>

record world =
  heap :: "ref \<Rightarrow> Vector3"
  fresh :: ref
  scene :: "ref list"
  projectiles :: "Projectile list"
  letterN :: "ref option"
  number1 :: "ref option"
  time_uniform :: real
  alphabet_ambientIntensity :: real
  digit_ambientIntensity :: real
  alphabet_viewPosition :: Vector3
  digit_viewPosition :: Vector3
  alphabet_cubePos :: Vector3
  digit_cubePos :: Vector3
  rotation_x :: real
  rotation_y :: real

definition PROJECTILE_SPEED :: real where
  "PROJECTILE_SPEED = 0.1"

definition DETECTION_RADIUS :: real where
  "DETECTION_RADIUS = 2"

text \<open>The three objects created at start-up: \<^verbatim>\<open>cubeMesh\<close>, \<^verbatim>\<open>camera\<close>, \<^verbatim>\<open>ambientLight\<close>.\<close>

definition cubeMesh :: ref where
  "cubeMesh = 0"

definition camera :: ref where
  "camera = 1"

definition ambientLight :: ref where
  "ambientLight = 2"

text \<open>
  \<^verbatim>\<open>Object3D.add\<close> detaches the object from its former parent and pushes it onto
  \<^verbatim>\<open>children\<close>; \<^verbatim>\<open>Object3D.remove\<close> splices out the first index at which the
  object is found.
\<close>

definition scene_add :: "ref \<Rightarrow> ref list \<Rightarrow> ref list" where
  "scene_add m cs = remove1 m cs @ [m]"

definition scene_remove :: "ref \<Rightarrow> ref list \<Rightarrow> ref list" where
  "scene_remove m cs = remove1 m cs"

text \<open>\<^verbatim>\<open>new THREE.Vector3(x, y, z)\<close> and \<^verbatim>\<open>v.clone()\<close>: a new object.\<close>

definition new_Vector3 :: "Vector3 \<Rightarrow> world \<Rightarrow> ref \<times> world" where
  "new_Vector3 v s = (fresh s, s\<lparr>heap := (heap s)(fresh s := v), fresh := Suc (fresh s)\<rparr>)"

definition clone :: "ref \<Rightarrow> world \<Rightarrow> ref \<times> world" where
  "clone r s = new_Vector3 (heap s r) s"

text \<open>The state after the module's top-level code has run (the font not yet loaded).\<close>

definition init :: world where
  "init = \<lparr>
     heap = (\<lambda>r. if r = camera then Vector3 0 0 5 else Vector3 0 0 0),
     fresh = 3,
     scene = [cubeMesh, ambientLight],
     projectiles = [],
     letterN = None,
     number1 = None,
     time_uniform = 0,
     alphabet_ambientIntensity = 0.401,
     digit_ambientIntensity = 0.401,
     alphabet_viewPosition = Vector3 0 0 0,
     digit_viewPosition = Vector3 0 0 0,
     alphabet_cubePos = Vector3 0 0 0,
     digit_cubePos = Vector3 0 0 0,
     rotation_x = 0,
     rotation_y = 0 \<rparr>"

section \<open>The Projectile class\<close>

text \<open>
  The constructor (lines 162--170): the new mesh gets a position vector of its own, into
  which the given position is copied; the given direction object is normalised in place
  and kept; the mesh is added to the scene.
\<close>

definition new_Projectile :: "ref \<Rightarrow> ref \<Rightarrow> world \<Rightarrow> Projectile \<times> world" where
  "new_Projectile position dir s =
     (let (m, s1) = new_Vector3 (Vector3 0 0 0) s;
          s2 = s1\<lparr>heap := (heap s1)(m := heap s1 position)\<rparr>;
          s3 = s2\<lparr>heap := (heap s2)(dir := normalize_vec (heap s2 dir))\<rparr>;
          s4 = s3\<lparr>scene := scene_add m (scene s3)\<rparr>
      in (\<lparr>mesh = m, direction = dir, alive = True\<rparr>, s4))"

text \<open>\<^verbatim>\<open>destroy\<close> (lines 180--183).\<close>

definition destroy :: "Projectile \<Rightarrow> world \<Rightarrow> Projectile \<times> world" where
  "destroy p s = (p\<lparr>alive := False\<rparr>, s\<lparr>scene := scene_remove (mesh p) (scene s)\<rparr>)"

text \<open>
  \<^verbatim>\<open>update\<close> (lines 172--178). \<^verbatim>\<open>this.direction.multiplyScalar(PROJECTILE_SPEED)\<close>
  overwrites the stored direction and returns it; the result is then added to the
  position in place.
\<close>

definition update :: "Projectile \<Rightarrow> world \<Rightarrow> Projectile \<times> world" where
  "update p s =
     (let s1 = s\<lparr>heap := (heap s)(direction p :=
                   multiplyScalar (heap s (direction p)) PROJECTILE_SPEED)\<rparr>;
          s2 = s1\<lparr>heap := (heap s1)(mesh p :=
                   add_vec (heap s1 (mesh p)) (heap s1 (direction p)))\<rparr>
      in if length_vec (heap s2 (mesh p)) > 10 then destroy p s2 else (p, s2))"

section \<open>The frame loop\<close>

text \<open>The body of the \<^verbatim>\<open>if (letterN && number1)\<close> block (lines 229--244).\<close>

definition proximity :: "Projectile \<Rightarrow> world \<Rightarrow> world" where
  "proximity p s =
     (case letterN s of
        None \<Rightarrow> s
      | Some n \<Rightarrow>
         (case number1 s of
            None \<Rightarrow> s
          | Some d \<Rightarrow>
             (let distanceToN = distanceTo (heap s (mesh p)) (heap s n);
                  distanceTo1 = distanceTo (heap s (mesh p)) (heap s d);
                  s1 = s\<lparr>alphabet_ambientIntensity :=
                          (if distanceToN < DETECTION_RADIUS then 0.8 else 0.401)\<rparr>
              in s1\<lparr>digit_ambientIntensity :=
                       (if distanceTo1 < DETECTION_RADIUS then 0.8 else 0.401)\<rparr>)))"

text \<open>
  \<^verbatim>\<open>projectiles.forEach(...)\<close> (lines 226--245). The array holds mutable objects;
  the function returns them as they are after the loop, together with the state.
\<close>

fun forEach :: "Projectile list \<Rightarrow> world \<Rightarrow> Projectile list \<times> world" where
  "forEach [] s = ([], s)"
| "forEach (p # ps) s =
     (let (p', s1) = update p s;
          s2 = proximity p' s1;
          (ps', s3) = forEach ps s2
      in (p' # ps', s3))"

text \<open>\<^verbatim>\<open>updateProjectiles\<close> (lines 224--246).\<close>

definition updateProjectiles :: "world \<Rightarrow> world" where
  "updateProjectiles s =
     (let (ps', s') = forEach (filter alive (projectiles s)) s
      in s'\<lparr>projectiles := ps'\<rparr>)"

text \<open>\<^verbatim>\<open>animate\<close> (lines 249--268); rendering does not change the state.\<close>

definition animate :: "world \<Rightarrow> world" where
  "animate s =
     updateProjectiles
       (s\<lparr>time_uniform := time_uniform s + 0.05,
          alphabet_viewPosition := heap s camera,
          digit_viewPosition := heap s camera,
          alphabet_cubePos := heap s cubeMesh,
          digit_cubePos := heap s cubeMesh,
          rotation_x := rotation_x s + 0.01,
          rotation_y := rotation_y s + 0.01\<rparr>)"

section \<open>Event handlers\<close>

text \<open>
  The key-down handler (lines 281--311). \<open>key\<close> is \<^verbatim>\<open>event.key\<close>; \<open>r1\<close>,
  \<open>r2\<close>, \<open>r3\<close> are the results of the three calls of \<^verbatim>\<open>Math.random()\<close>, which
  only the space branch makes.
\<close>

definition set_y :: "Vector3 \<Rightarrow> real \<Rightarrow> Vector3" where
  "set_y v b = Vector3 (vx v) b (vz v)"

definition set_x :: "Vector3 \<Rightarrow> real \<Rightarrow> Vector3" where
  "set_x v a = Vector3 a (vy v) (vz v)"

definition set_z :: "Vector3 \<Rightarrow> real \<Rightarrow> Vector3" where
  "set_z v c = Vector3 (vx v) (vy v) c"

definition keydown :: "string \<Rightarrow> real \<Rightarrow> real \<Rightarrow> real \<Rightarrow> world \<Rightarrow> world" where
  "keydown key r1 r2 r3 s =
     (if key = ''w'' then
        s\<lparr>heap := (heap s)(cubeMesh := set_y (heap s cubeMesh) (vy (heap s cubeMesh) + 0.1))\<rparr>
      else if key = ''s'' then
        s\<lparr>heap := (heap s)(cubeMesh := set_y (heap s cubeMesh) (vy (heap s cubeMesh) - 0.1))\<rparr>
      else if key = ''a'' then
        s\<lparr>heap := (heap s)(camera := set_x (heap s camera) (vx (heap s camera) - 0.1))\<rparr>
      else if key = ''d'' then
        s\<lparr>heap := (heap s)(camera := set_x (heap s camera) (vx (heap s camera) + 0.1))\<rparr>
      else if key = ''q'' then
        s\<lparr>heap := (heap s)(cubeMesh := set_z (heap s cubeMesh) (vz (heap s cubeMesh) - 0.1))\<rparr>
      else if key = ''e'' then
        s\<lparr>heap := (heap s)(cubeMesh := set_z (heap s cubeMesh) (vz (heap s cubeMesh) + 0.1))\<rparr>
      else if key = '' '' then
        (let (projectileStartPos, s1) = clone cubeMesh s;
             (projectileDirection, s2) =
                new_Vector3 (Vector3 (r1 - 0.5) (r2 - 0.5) (r3 - 0.5)) s1;
             (p, s3) = new_Projectile projectileStartPos projectileDirection s2
         in s3\<lparr>projectiles := projectiles s3 @ [p]\<rparr>)
      else s)"

text \<open>
  The callback of \<^verbatim>\<open>loader.load\<close> (lines 194--214): both text meshes are created,
  placed and added to the scene.
\<close>

definition font_loaded :: "world \<Rightarrow> world" where
  "font_loaded s =
     (let (n, s1) = new_Vector3 (Vector3 0 0 0) s;
          s2 = s1\<lparr>letterN := Some n\<rparr>;
          s3 = s2\<lparr>heap := (heap s2)(n := Vector3 (- 2) 0 0)\<rparr>;
          s4 = s3\<lparr>scene := scene_add n (scene s3)\<rparr>;
          (d, s5) = new_Vector3 (Vector3 0 0 0) s4;
          s6 = s5\<lparr>number1 := Some d\<rparr>;
          s7 = s6\<lparr>heap := (heap s6)(d := Vector3 2 0 0)\<rparr>
      in s7\<lparr>scene := scene_add d (scene s7)\<rparr>)"

text \<open>
  Everything runs on one thread: the program's history is a sequence of frames, key
  presses and (at most once in practice) the font callback.
\<close>

datatype event = Frame | KeyDown string real real real | FontLoaded

fun step :: "event \<Rightarrow> world \<Rightarrow> world" where
  "step Frame s = animate s"
| "step (KeyDown key r1 r2 r3) s = keydown key r1 r2 r3 s"
| "step FontLoaded s = font_loaded s"

fun run :: "event list \<Rightarrow> world \<Rightarrow> world" where
  "run [] s = s"
| "run (e # es) s = run es (step e s)"

section \<open>Well-formed states and test scenes\<close>

text \<open>
  The vector objects the program holds on to: the positions of the cube, the camera and
  the two text meshes, and the position and direction of every projectile in the
  collection. A state is well formed when these are pairwise different allocated
  objects and the scene's children are different allocated objects. The initial state
  is well formed and every handler keeps states well formed (lemma \<open>wf_run\<close>).
\<close>

definition projectile_refs :: "Projectile list \<Rightarrow> ref list" where
  "projectile_refs ps = concat (map (\<lambda>p. [mesh p, direction p]) ps)"

definition fixed_refs :: "world \<Rightarrow> ref list" where
  "fixed_refs s =
     [cubeMesh, camera]
     @ (case letterN s of None \<Rightarrow> [] | Some n \<Rightarrow> [n])
     @ (case number1 s of None \<Rightarrow> [] | Some d \<Rightarrow> [d])"

definition well_formed :: "world \<Rightarrow> bool" where
  "well_formed s \<longleftrightarrow>
     distinct (fixed_refs s @ projectile_refs (projectiles s)) \<and>
     list_all (\<lambda>r. r < fresh s) (fixed_refs s @ projectile_refs (projectiles s)) \<and>
     distinct (scene s) \<and> list_all (\<lambda>r. r < fresh s) (scene s)"

text \<open>The number of frames in a history.\<close>

definition frames :: "event list \<Rightarrow> nat" where
  "frames es = length (filter (\<lambda>e. e = Frame) es)"

text \<open>
  The font has loaded and space was pressed twice with the cube at the origin: the
  first projectile heads for the letter (direction \<open>(-1, 0, 0)\<close>), the second for the
  digit (direction \<open>(1, 0, 0)\<close>).
\<close>

definition two_shots :: world where
  "two_shots =
     run [FontLoaded, KeyDown '' '' 0 (1/2) (1/2), KeyDown '' '' (3/4) (1/2) (1/2)] init"

text \<open>Space pressed once with the cube at the origin; the direction is \<open>(1, 0, 0)\<close>.\<close>

definition one_shot :: world where
  "one_shot = keydown '' '' (3/4) (1/2) (1/2) init"

text \<open>
  The cube moved up by 101 presses of \<open>w\<close>, to height 10.1, and then space pressed:
  the projectile starts outside the radius 10 around the origin.
\<close>

definition far_shot :: world where
  "far_shot =
     run (replicate 101 (KeyDown ''w'' 0 0 0) @ [KeyDown '' '' (3/4) (1/2) (1/2)]) init"


section \<open>Double-precision numbers\<close>

text \<open>
  A JavaScript number is an IEEE 754 double: zero or an integer multiple \<open>n * 2 ^ e\<close> of
  a power of two with \<open>\<bar>n\<bar> < 2 ^ 53\<close> and \<open>e \<ge> - 1074\<close>. Every arithmetic operation
  returns the double nearest to the exact result, ties going to the even multiple. Where
  a claim depends on this rounding the program is modelled a second time, below, with
  every arithmetic result rounded. \<open>ilog2 x\<close> is the integer part of the binary
  logarithm of a positive \<open>x\<close> (lemma \<open>ilog2_log\<close>), computed from the bit length of
  an integer; \<open>exponent_d x\<close> is the exponent of the doubles around \<open>x\<close> (\<open>- 1074\<close> in
  the subnormal range) and \<open>fl x\<close> is the double nearest to \<open>x\<close>. The exponent has no
  upper bound here: overflow to infinity is not modelled, and neither is the sign of
  zero.
\<close>

definition round_half_even :: "real \<Rightarrow> int" where
  "round_half_even x =
     (let f = \<lfloor>x\<rfloor>; r = x - of_int f
      in if r < 1/2 then f else if 1/2 < r then f + 1 else if even f then f else f + 1)"

definition ilog2 :: "real \<Rightarrow> int" where
  "ilog2 x = (if 1 \<le> x then bitlen \<lfloor>x\<rfloor> - 1 else - bitlen (\<lceil>1 / x\<rceil> - 1))"

definition exponent_d :: "real \<Rightarrow> int" where
  "exponent_d x = max (ilog2 \<bar>x\<bar> - 52) (- 1074)"

definition fl :: "real \<Rightarrow> real" where
  "fl x = of_int (round_half_even (x / 2 powi exponent_d x)) * 2 powi exponent_d x"

text \<open>Half of the smallest positive double; a result smaller than this rounds to zero.\<close>

definition eta :: real where
  "eta = 2 powi (- 1075)"

section \<open>The program in double precision\<close>

text \<open>The literal \<^verbatim>\<open>0.1\<close> of \<^verbatim>\<open>const PROJECTILE_SPEED = 0.1\<close> is the double nearest to 1/10.\<close>

definition PROJECTILE_SPEED_d :: real where
  "PROJECTILE_SPEED_d = fl (1 / 10)"

text \<open>
  The methods of \<^verbatim>\<open>THREE.Vector3\<close> as the library writes them, one rounding for each
  operation: \<^verbatim>\<open>this.x *= scalar\<close>; \<^verbatim>\<open>this.x += v.x\<close>;
  \<^verbatim>\<open>Math.sqrt( this.x * this.x + this.y * this.y + this.z * this.z )\<close>;
  \<^verbatim>\<open>this.multiplyScalar( 1 / scalar )\<close>; \<^verbatim>\<open>this.divideScalar( this.length() || 1 )\<close>.
  \<^verbatim>\<open>Math.sqrt\<close> is taken to be correctly rounded.
\<close>

definition multiplyScalar_d :: "Vector3 \<Rightarrow> real \<Rightarrow> Vector3" where
  "multiplyScalar_d v k = Vector3 (fl (vx v * k)) (fl (vy v * k)) (fl (vz v * k))"

definition add_vec_d :: "Vector3 \<Rightarrow> Vector3 \<Rightarrow> Vector3" where
  "add_vec_d v w = Vector3 (fl (vx v + vx w)) (fl (vy v + vy w)) (fl (vz v + vz w))"

definition length_d :: "Vector3 \<Rightarrow> real" where
  "length_d v = fl (sqrt (fl (fl (fl (vx v * vx v) + fl (vy v * vy v)) + fl (vz v * vz v))))"

definition divideScalar_d :: "Vector3 \<Rightarrow> real \<Rightarrow> Vector3" where
  "divideScalar_d v k = multiplyScalar_d v (fl (1 / k))"

definition normalize_d :: "Vector3 \<Rightarrow> Vector3" where
  "normalize_d v = divideScalar_d v (if length_d v = 0 then 1 else length_d v)"

definition distanceToSquared_d :: "Vector3 \<Rightarrow> Vector3 \<Rightarrow> real" where
  "distanceToSquared_d v w =
     (let dx = fl (vx v - vx w); dy = fl (vy v - vy w); dz = fl (vz v - vz w)
      in fl (fl (fl (dx * dx) + fl (dy * dy)) + fl (dz * dz)))"

definition distanceTo_d :: "Vector3 \<Rightarrow> Vector3 \<Rightarrow> real" where
  "distanceTo_d v w = fl (sqrt (distanceToSquared_d v w))"

text \<open>
  The constructor, \<^verbatim>\<open>update\<close>, the frame loop and the key-down handler as in the
  sections above, with the rounded operations; number literals denote the nearest
  double. \<open>destroy\<close> and \<open>font_loaded\<close> do no arithmetic (\<open>- 2\<close>, \<open>0\<close>, \<open>2\<close> are
  doubles) and are shared with the first model.
\<close>

definition new_Projectile_d :: "ref \<Rightarrow> ref \<Rightarrow> world \<Rightarrow> Projectile \<times> world" where
  "new_Projectile_d position dir s =
     (let (m, s1) = new_Vector3 (Vector3 0 0 0) s;
          s2 = s1\<lparr>heap := (heap s1)(m := heap s1 position)\<rparr>;
          s3 = s2\<lparr>heap := (heap s2)(dir := normalize_d (heap s2 dir))\<rparr>;
          s4 = s3\<lparr>scene := scene_add m (scene s3)\<rparr>
      in (\<lparr>mesh = m, direction = dir, alive = True\<rparr>, s4))"

definition update_d :: "Projectile \<Rightarrow> world \<Rightarrow> Projectile \<times> world" where
  "update_d p s =
     (let s1 = s\<lparr>heap := (heap s)(direction p :=
                   multiplyScalar_d (heap s (direction p)) PROJECTILE_SPEED_d)\<rparr>;
          s2 = s1\<lparr>heap := (heap s1)(mesh p :=
                   add_vec_d (heap s1 (mesh p)) (heap s1 (direction p)))\<rparr>
      in if length_d (heap s2 (mesh p)) > 10 then destroy p s2 else (p, s2))"

definition proximity_d :: "Projectile \<Rightarrow> world \<Rightarrow> world" where
  "proximity_d p s =
     (case letterN s of
        None \<Rightarrow> s
      | Some n \<Rightarrow>
         (case number1 s of
            None \<Rightarrow> s
          | Some d \<Rightarrow>
             (let distanceToN = distanceTo_d (heap s (mesh p)) (heap s n);
                  distanceTo1 = distanceTo_d (heap s (mesh p)) (heap s d);
                  s1 = s\<lparr>alphabet_ambientIntensity :=
                          (if distanceToN < DETECTION_RADIUS then fl 0.8 else fl 0.401)\<rparr>
              in s1\<lparr>digit_ambientIntensity :=
                       (if distanceTo1 < DETECTION_RADIUS then fl 0.8 else fl 0.401)\<rparr>)))"

fun forEach_d :: "Projectile list \<Rightarrow> world \<Rightarrow> Projectile list \<times> world" where
  "forEach_d [] s = ([], s)"
| "forEach_d (p # ps) s =
     (let (p', s1) = update_d p s;
          s2 = proximity_d p' s1;
          (ps', s3) = forEach_d ps s2
      in (p' # ps', s3))"

definition updateProjectiles_d :: "world \<Rightarrow> world" where
  "updateProjectiles_d s =
     (let (ps', s') = forEach_d (filter alive (projectiles s)) s
      in s'\<lparr>projectiles := ps'\<rparr>)"

definition animate_d :: "world \<Rightarrow> world" where
  "animate_d s =
     updateProjectiles_d
       (s\<lparr>time_uniform := fl (time_uniform s + fl 0.05),
          alphabet_viewPosition := heap s camera,
          digit_viewPosition := heap s camera,
          alphabet_cubePos := heap s cubeMesh,
          digit_cubePos := heap s cubeMesh,
          rotation_x := fl (rotation_x s + fl 0.01),
          rotation_y := fl (rotation_y s + fl 0.01)\<rparr>)"

text \<open>
  \<open>r1\<close>, \<open>r2\<close>, \<open>r3\<close> are the results of \<^verbatim>\<open>Math.random()\<close>: doubles in the interval
  from 0 (included) to 1 (excluded).
\<close>

definition keydown_d :: "string \<Rightarrow> real \<Rightarrow> real \<Rightarrow> real \<Rightarrow> world \<Rightarrow> world" where
  "keydown_d key r1 r2 r3 s =
     (if key = ''w'' then
        s\<lparr>heap := (heap s)(cubeMesh := set_y (heap s cubeMesh) (fl (vy (heap s cubeMesh) + fl 0.1)))\<rparr>
      else if key = ''s'' then
        s\<lparr>heap := (heap s)(cubeMesh := set_y (heap s cubeMesh) (fl (vy (heap s cubeMesh) - fl 0.1)))\<rparr>
      else if key = ''a'' then
        s\<lparr>heap := (heap s)(camera := set_x (heap s camera) (fl (vx (heap s camera) - fl 0.1)))\<rparr>
      else if key = ''d'' then
        s\<lparr>heap := (heap s)(camera := set_x (heap s camera) (fl (vx (heap s camera) + fl 0.1)))\<rparr>
      else if key = ''q'' then
        s\<lparr>heap := (heap s)(cubeMesh := set_z (heap s cubeMesh) (fl (vz (heap s cubeMesh) - fl 0.1)))\<rparr>
      else if key = ''e'' then
        s\<lparr>heap := (heap s)(cubeMesh := set_z (heap s cubeMesh) (fl (vz (heap s cubeMesh) + fl 0.1)))\<rparr>
      else if key = '' '' then
        (let (projectileStartPos, s1) = clone cubeMesh s;
             (projectileDirection, s2) =
                new_Vector3 (Vector3 (fl (r1 - 0.5)) (fl (r2 - 0.5)) (fl (r3 - 0.5))) s1;
             (p, s3) = new_Projectile_d projectileStartPos projectileDirection s2
         in s3\<lparr>projectiles := projectiles s3 @ [p]\<rparr>)
      else s)"

fun step_d :: "event \<Rightarrow> world \<Rightarrow> world" where
  "step_d Frame s = animate_d s"
| "step_d (KeyDown key r1 r2 r3) s = keydown_d key r1 r2 r3 s"
| "step_d FontLoaded s = font_loaded s"

fun run_d :: "event list \<Rightarrow> world \<Rightarrow> world" where
  "run_d [] s = s"
| "run_d (e # es) s = run_d es (step_d e s)"

text \<open>
  The position and the stored direction of a projectile after \<open>n\<close> calls of
  \<^verbatim>\<open>update\<close> that did not destroy it, starting from position \<open>x\<close> and direction \<open>d\<close>:
  for one coordinate, and for the two vectors.
\<close>

fun moved1 :: "nat \<Rightarrow> real \<times> real \<Rightarrow> real \<times> real" where
  "moved1 0 xd = xd"
| "moved1 (Suc n) xd =
     (let d' = fl (snd (moved1 n xd) * PROJECTILE_SPEED_d)
      in (fl (fst (moved1 n xd) + d'), d'))"

fun moved :: "nat \<Rightarrow> Vector3 \<times> Vector3 \<Rightarrow> Vector3 \<times> Vector3" where
  "moved 0 pd = pd"
| "moved (Suc n) pd =
     (let d' = multiplyScalar_d (snd (moved n pd)) PROJECTILE_SPEED_d
      in (add_vec_d (fst (moved n pd)) d', d'))"

text \<open>
  The bookkeeping for one projectile \<open>p\<close> spawned at \<open>x0\<close> with normalised direction
  \<open>d\<close>: its two vectors are allocated objects of its own, different from each other,
  from the fixed objects and from the vectors of every other entry of the collection,
  and it has been moved \<open>j\<close> times: its position and stored direction are
  \<open>moved j (x0, d)\<close>.
\<close>

definition tracked_d :: "Projectile \<Rightarrow> Vector3 \<Rightarrow> Vector3 \<Rightarrow> nat \<Rightarrow> world \<Rightarrow> bool" where
  "tracked_d p x0 d j s \<longleftrightarrow>
     mesh p \<noteq> direction p \<and> mesh p < fresh s \<and> direction p < fresh s \<and>
     mesh p \<notin> set (fixed_refs s) \<and> direction p \<notin> set (fixed_refs s) \<and>
     list_all (\<lambda>q. (mesh q = mesh p \<and> direction q = direction p) \<or>
                    (mesh q \<noteq> mesh p \<and> mesh q \<noteq> direction p \<and>
                     direction q \<noteq> mesh p \<and> direction q \<noteq> direction p)) (projectiles s) \<and>
     heap s (direction p) = snd (moved j (x0, d)) \<and>
     heap s (mesh p) = fst (moved j (x0, d))"

text \<open>
  Space pressed once with the cube at the origin and the random draws 0.75, 0.5, 0.5:
  the raw direction is \<open>(0.25, 0, 0)\<close> and the normalised direction is \<open>(1, 0, 0)\<close>,
  both without rounding error.
\<close>

definition one_shot_d :: world where
  "one_shot_d = keydown_d '' '' (3/4) (1/2) (1/2) init"

section \<open>Facts about vectors\<close>

lemma length_vec_nonneg: "0 \<le> length_vec v"
  by (simp add: length_vec_def)

lemma sqrt_less_iff_sq: "0 \<le> b \<Longrightarrow> sqrt a < b \<longleftrightarrow> a < b * b"
proof -
  assume b: "0 \<le> b"
  have "sqrt a < sqrt (b * b) \<longleftrightarrow> a < b * b" by (rule real_sqrt_less_iff)
  with b show ?thesis by simp
qed

lemma sq_less_sqrt_iff: "0 \<le> b \<Longrightarrow> b < sqrt a \<longleftrightarrow> b * b < a"
proof -
  assume b: "0 \<le> b"
  have "sqrt (b * b) < sqrt a \<longleftrightarrow> b * b < a" by (rule real_sqrt_less_iff)
  with b show ?thesis by simp
qed

lemma length_vec_gt_iff:
  "0 \<le> b \<Longrightarrow> b < length_vec v \<longleftrightarrow> b * b < vx v * vx v + vy v * vy v + vz v * vz v"
  unfolding length_vec_def by (rule sq_less_sqrt_iff)

lemma distanceTo_lt_iff:
  "0 \<le> b \<Longrightarrow> distanceTo v w < b \<longleftrightarrow> distanceToSquared v w < b * b"
  unfolding distanceTo_def by (rule sqrt_less_iff_sq)

lemma length_vec_multiplyScalar: "length_vec (multiplyScalar v k) = \<bar>k\<bar> * length_vec v"
proof -
  have "vx v * k * (vx v * k) + vy v * k * (vy v * k) + vz v * k * (vz v * k)
        = (k * k) * (vx v * vx v + vy v * vy v + vz v * vz v)"
    by (simp add: algebra_simps)
  then show ?thesis
    by (simp add: length_vec_def multiplyScalar_def real_sqrt_mult)
qed

lemma length_vec_normalize:
  "length_vec (normalize_vec v) = (if length_vec v = 0 then 0 else 1)"
  using length_vec_nonneg [of v]
  by (simp add: normalize_vec_def divideScalar_def length_vec_multiplyScalar)

lemma length_vec_triangle: "length_vec (add_vec v w) \<le> length_vec v + length_vec w"
proof -
  obtain a b c where v: "v = Vector3 a b c" by (cases v)
  obtain d e f where w: "w = Vector3 d e f" by (cases w)
  let ?A = "sqrt (a\<^sup>2 + b\<^sup>2)" and ?U = "sqrt (d\<^sup>2 + e\<^sup>2)"
  have 1: "sqrt ((a + d)\<^sup>2 + (b + e)\<^sup>2) \<le> ?A + ?U"
    by (rule real_sqrt_sum_squares_triangle_ineq)
  have 0: "0 \<le> sqrt ((a + d)\<^sup>2 + (b + e)\<^sup>2)" by simp
  have "sqrt ((a + d)\<^sup>2 + (b + e)\<^sup>2 + (c + f)\<^sup>2)
        = sqrt ((sqrt ((a + d)\<^sup>2 + (b + e)\<^sup>2))\<^sup>2 + (c + f)\<^sup>2)"
    by simp
  also have "\<dots> \<le> sqrt ((?A + ?U)\<^sup>2 + (c + f)\<^sup>2)"
    using power_mono [OF 1 0, of 2] by simp
  also have "\<dots> \<le> sqrt (?A\<^sup>2 + c\<^sup>2) + sqrt (?U\<^sup>2 + f\<^sup>2)"
    by (rule real_sqrt_sum_squares_triangle_ineq)
  finally show ?thesis
    by (simp add: v w length_vec_def add_vec_def power2_eq_square)
qed

lemma length_vec_axis [simp]: "length_vec (Vector3 a 0 0) = \<bar>a\<bar>"
  by (simp add: length_vec_def)

lemma normalize_axis: "a \<noteq> 0 \<Longrightarrow> normalize_vec (Vector3 a 0 0) = Vector3 (a / \<bar>a\<bar>) 0 0"
  by (simp add: normalize_vec_def divideScalar_def multiplyScalar_def)

section \<open>Facts about the loop over the projectiles\<close>

lemma update_fields [simp]:
  "letterN (snd (update p s)) = letterN s"
  "number1 (snd (update p s)) = number1 s"
  "fresh (snd (update p s)) = fresh s"
  "projectiles (snd (update p s)) = projectiles s"
  "alphabet_ambientIntensity (snd (update p s)) = alphabet_ambientIntensity s"
  "digit_ambientIntensity (snd (update p s)) = digit_ambientIntensity s"
  "mesh (fst (update p s)) = mesh p"
  "direction (fst (update p s)) = direction p"
  by (simp_all add: update_def destroy_def Let_def)

lemma proximity_fields [simp]:
  "letterN (proximity p s) = letterN s"
  "number1 (proximity p s) = number1 s"
  "fresh (proximity p s) = fresh s"
  "heap (proximity p s) = heap s"
  "scene (proximity p s) = scene s"
  "projectiles (proximity p s) = projectiles s"
  by (simp_all add: proximity_def Let_def split: option.splits)

lemma forEach_Cons:
  "forEach (p # ps) s =
     (fst (update p s) # fst (forEach ps (proximity (fst (update p s)) (snd (update p s)))),
      snd (forEach ps (proximity (fst (update p s)) (snd (update p s)))))"
  by (simp add: Let_def split: prod.splits)

lemma forEach_fields [simp]:
  "letterN (snd (forEach ps s)) = letterN s"
  "number1 (snd (forEach ps s)) = number1 s"
  "fresh (snd (forEach ps s)) = fresh s"
  "projectiles (snd (forEach ps s)) = projectiles s"
  by (induction ps arbitrary: s; simp add: forEach_Cons del: forEach.simps(2))+

lemma forEach_meshes [simp]:
  "map mesh (fst (forEach ps s)) = map mesh ps"
  "map direction (fst (forEach ps s)) = map direction ps"
  by (induction ps arbitrary: s; simp add: forEach_Cons del: forEach.simps(2))+

lemma forEach_length [simp]: "length (fst (forEach ps s)) = length ps"
  by (induction ps arbitrary: s; simp add: forEach_Cons del: forEach.simps(2))




section \<open>Well-formedness is kept\<close>

lemma projectile_refs_simps [simp]:
  "projectile_refs [] = []"
  "projectile_refs (p # ps) = mesh p # direction p # projectile_refs ps"
  "projectile_refs (ps @ qs) = projectile_refs ps @ projectile_refs qs"
  by (simp_all add: projectile_refs_def)

lemma set_projectile_refs:
  "set (projectile_refs ps) = mesh ` set ps \<union> direction ` set ps"
  by (induction ps) auto

lemma projectile_refs_cong:
  "map mesh ps = map mesh qs \<Longrightarrow> map direction ps = map direction qs \<Longrightarrow>
   projectile_refs ps = projectile_refs qs"
proof (induction ps arbitrary: qs)
  case Nil
  then show ?case by simp
next
  case (Cons p ps)
  then obtain q qs' where "qs = q # qs'" by (cases qs) auto
  with Cons show ?case by simp
qed

lemma distinct_projectile_refs_filter:
  "distinct (xs @ projectile_refs ps) \<Longrightarrow> distinct (xs @ projectile_refs (filter P ps))"
  by (induction ps) (auto simp: set_projectile_refs)

lemma set_projectile_refs_filter:
  "set (projectile_refs (filter P ps)) \<subseteq> set (projectile_refs ps)"
  by (auto simp: set_projectile_refs)

lemma wf_init: "well_formed init"
  by (simp add: well_formed_def init_def fixed_refs_def cubeMesh_def camera_def ambientLight_def)

lemma update_scene: "set (scene (snd (update p s))) \<subseteq> set (scene s)"
  using set_remove1_subset [of "mesh p" "scene s"]
  by (simp add: update_def destroy_def Let_def scene_remove_def)

lemma update_scene_distinct: "distinct (scene s) \<Longrightarrow> distinct (scene (snd (update p s)))"
  by (simp add: update_def destroy_def Let_def scene_remove_def)

lemma forEach_scene: "set (scene (snd (forEach ps s))) \<subseteq> set (scene s)"
proof (induction ps arbitrary: s)
  case Nil
  then show ?case by simp
next
  case (Cons p ps)
  have "set (scene (snd (forEach (p # ps) s)))
        \<subseteq> set (scene (proximity (fst (update p s)) (snd (update p s))))"
    unfolding forEach_Cons snd_conv by (rule Cons.IH)
  also have "\<dots> \<subseteq> set (scene s)"
    using update_scene by simp
  finally show ?case .
qed

lemma forEach_scene_distinct: "distinct (scene s) \<Longrightarrow> distinct (scene (snd (forEach ps s)))"
  by (induction ps arbitrary: s) (simp_all add: forEach_Cons update_scene_distinct del: forEach.simps(2))

lemma updateProjectiles_unfold:
  "updateProjectiles s =
     (snd (forEach (filter alive (projectiles s)) s))
       \<lparr>projectiles := fst (forEach (filter alive (projectiles s)) s)\<rparr>"
  by (simp add: updateProjectiles_def split: prod.splits)

lemma wf_updateProjectiles: "well_formed s \<Longrightarrow> well_formed (updateProjectiles s)"
proof -
  assume w: "well_formed s"
  let ?ps = "filter alive (projectiles s)"
  let ?s' = "updateProjectiles s"
  have refs: "projectile_refs (projectiles ?s') = projectile_refs ?ps"
    by (rule projectile_refs_cong) (simp_all add: updateProjectiles_unfold)
  have fx: "fixed_refs ?s' = fixed_refs s"
    by (simp add: fixed_refs_def updateProjectiles_unfold)
  have fr: "fresh ?s' = fresh s"
    by (simp add: updateProjectiles_unfold)
  have sc: "set (scene ?s') \<subseteq> set (scene s)" "distinct (scene ?s')"
    using w forEach_scene [of ?ps s] forEach_scene_distinct [of s ?ps]
    by (simp_all add: updateProjectiles_unfold well_formed_def)
  have d: "distinct (fixed_refs s @ projectile_refs ?ps)"
    using w distinct_projectile_refs_filter [of "fixed_refs s" "projectiles s" alive]
    by (simp add: well_formed_def)
  have b: "list_all (\<lambda>r. r < fresh s) (fixed_refs s @ projectile_refs ?ps)"
    using w set_projectile_refs_filter [of alive "projectiles s"]
    by (auto simp: well_formed_def list_all_iff)
  show ?thesis
    using d b sc w unfolding well_formed_def refs fx fr
    by (auto simp: list_all_iff)
qed

lemma wf_animate: "well_formed s \<Longrightarrow> well_formed (animate s)"
proof -
  assume w: "well_formed s"
  have "well_formed (s\<lparr>time_uniform := time_uniform s + 0.05,
          alphabet_viewPosition := heap s camera,
          digit_viewPosition := heap s camera,
          alphabet_cubePos := heap s cubeMesh,
          digit_cubePos := heap s cubeMesh,
          rotation_x := rotation_x s + 0.01,
          rotation_y := rotation_y s + 0.01\<rparr>)"
    using w by (simp add: well_formed_def fixed_refs_def)
  then show ?thesis
    unfolding animate_def by (rule wf_updateProjectiles)
qed

lemma keydown_space:
  "keydown '' '' r1 r2 r3 s =
     s\<lparr>heap := (heap s)(fresh s := heap s cubeMesh,
                        Suc (Suc (fresh s)) := heap s cubeMesh,
                        Suc (fresh s) := normalize_vec (Vector3 (r1 - 0.5) (r2 - 0.5) (r3 - 0.5))),
       fresh := Suc (Suc (Suc (fresh s))),
       scene := scene_add (Suc (Suc (fresh s))) (scene s),
       projectiles := projectiles s
          @ [\<lparr>mesh = Suc (Suc (fresh s)), direction = Suc (fresh s), alive = True\<rparr>]\<rparr>"
  by (simp add: keydown_def clone_def new_Vector3_def new_Projectile_def Let_def)

lemma keydown_fields:
  "letterN (keydown key r1 r2 r3 s) = letterN s"
  "number1 (keydown key r1 r2 r3 s) = number1 s"
  "alphabet_ambientIntensity (keydown key r1 r2 r3 s) = alphabet_ambientIntensity s"
  "digit_ambientIntensity (keydown key r1 r2 r3 s) = digit_ambientIntensity s"
  by (simp_all add: keydown_def clone_def new_Vector3_def new_Projectile_def Let_def)

lemma keydown_move_fields:
  "key \<noteq> '' '' \<Longrightarrow> projectiles (keydown key r1 r2 r3 s) = projectiles s"
  "key \<noteq> '' '' \<Longrightarrow> fresh (keydown key r1 r2 r3 s) = fresh s"
  "key \<noteq> '' '' \<Longrightarrow> scene (keydown key r1 r2 r3 s) = scene s"
  by (simp_all add: keydown_def)

lemma below_mono: "list_all (\<lambda>r. r < (n::nat)) xs \<Longrightarrow> n \<le> m \<Longrightarrow> list_all (\<lambda>r. r < m) xs"
  by (induction xs) auto

lemma below_notin: "list_all (\<lambda>r. r < (n::nat)) xs \<Longrightarrow> n \<le> k \<Longrightarrow> k \<notin> set xs"
  by (induction xs) auto

lemma wf_keydown: "well_formed s \<Longrightarrow> well_formed (keydown key r1 r2 r3 s)"
proof (cases "key = '' ''")
  case False
  assume "well_formed s"
  then show ?thesis
    using False by (simp add: well_formed_def fixed_refs_def keydown_fields keydown_move_fields)
next
  case True
  assume w: "well_formed s"
  let ?f = "fresh s"
  let ?rs = "fixed_refs s @ projectile_refs (projectiles s)"
  have lt: "list_all (\<lambda>r. r < ?f) ?rs" "list_all (\<lambda>r. r < ?f) (scene s)"
    and dis: "distinct ?rs" "distinct (scene s)"
    using w by (simp_all add: well_formed_def)
  have fx: "fixed_refs (keydown '' '' r1 r2 r3 s) = fixed_refs s"
    by (simp add: fixed_refs_def keydown_fields)
  have n1: "Suc (Suc ?f) \<notin> set (scene s)"
    by (rule below_notin [OF lt(2)]) simp
  have n2: "Suc ?f \<notin> set ?rs"
    by (rule below_notin [OF lt(1)]) simp
  have n3: "Suc (Suc ?f) \<notin> set ?rs"
    by (rule below_notin [OF lt(1)]) simp
  have sc: "scene (keydown '' '' r1 r2 r3 s) = scene s @ [Suc (Suc ?f)]"
    using n1 by (simp add: keydown_space scene_add_def remove1_idem)
  have ps: "projectile_refs (projectiles (keydown '' '' r1 r2 r3 s))
            = projectile_refs (projectiles s) @ [Suc (Suc ?f), Suc ?f]"
    by (simp add: keydown_space)
  have fr: "fresh (keydown '' '' r1 r2 r3 s) = Suc (Suc (Suc ?f))"
    by (simp add: keydown_space)
  have m1: "list_all (\<lambda>r. r < Suc (Suc (Suc ?f))) ?rs"
    by (rule below_mono [OF lt(1)]) simp
  have m2: "list_all (\<lambda>r. r < Suc (Suc (Suc ?f))) (scene s)"
    by (rule below_mono [OF lt(2)]) simp
  have "well_formed (keydown '' '' r1 r2 r3 s)"
    unfolding well_formed_def fx sc ps fr
    using dis n1 n2 n3 m1 m2 by simp
  then show ?thesis using True by simp
qed

lemma font_loaded_eq:
  "font_loaded s =
     s\<lparr>heap := (heap s)(fresh s := Vector3 (- 2) 0 0, Suc (fresh s) := Vector3 2 0 0),
       fresh := Suc (Suc (fresh s)),
       letterN := Some (fresh s),
       number1 := Some (Suc (fresh s)),
       scene := scene_add (Suc (fresh s)) (scene_add (fresh s) (scene s))\<rparr>"
  by (simp add: font_loaded_def new_Vector3_def Let_def)

lemma wf_font_loaded: "well_formed s \<Longrightarrow> well_formed (font_loaded s)"
proof -
  assume w: "well_formed s"
  let ?f = "fresh s"
  let ?ps = "projectile_refs (projectiles s)"
  have lt: "list_all (\<lambda>r. r < ?f) ([cubeMesh, camera] @ ?ps)" "list_all (\<lambda>r. r < ?f) (scene s)"
    and dis: "distinct ([cubeMesh, camera] @ ?ps)" "distinct (scene s)"
    using w by (simp_all add: well_formed_def fixed_refs_def)
  have fx: "fixed_refs (font_loaded s) = [cubeMesh, camera, ?f, Suc ?f]"
    by (simp add: font_loaded_eq fixed_refs_def)
  have n1: "?f \<notin> set (scene s)"
    by (rule below_notin [OF lt(2)]) simp
  have n2: "Suc ?f \<notin> set (scene s)"
    by (rule below_notin [OF lt(2)]) simp
  have n3: "?f \<notin> set ([cubeMesh, camera] @ ?ps)"
    by (rule below_notin [OF lt(1)]) simp
  have n4: "Suc ?f \<notin> set ([cubeMesh, camera] @ ?ps)"
    by (rule below_notin [OF lt(1)]) simp
  have sc: "scene (font_loaded s) = scene s @ [?f, Suc ?f]"
    using n1 n2 by (simp add: font_loaded_eq scene_add_def remove1_idem)
  have ps: "projectiles (font_loaded s) = projectiles s"
    by (simp add: font_loaded_eq)
  have fr: "fresh (font_loaded s) = Suc (Suc ?f)"
    by (simp add: font_loaded_eq)
  have m1: "list_all (\<lambda>r. r < Suc (Suc ?f)) ([cubeMesh, camera] @ ?ps)"
    by (rule below_mono [OF lt(1)]) simp
  have m2: "list_all (\<lambda>r. r < Suc (Suc ?f)) (scene s)"
    by (rule below_mono [OF lt(2)]) simp
  show ?thesis
    unfolding well_formed_def fx sc ps fr
    using dis n1 n2 n3 n4 m1 m2 by simp
qed

lemma wf_step: "well_formed s \<Longrightarrow> well_formed (step e s)"
  by (cases e) (simp_all add: wf_animate wf_keydown wf_font_loaded)

lemma wf_run: "well_formed s \<Longrightarrow> well_formed (run es s)"
  by (induction es arbitrary: s) (simp_all add: wf_step)


section \<open>One projectile in a pass\<close>

lemma update_heap_other:
  "r \<noteq> mesh p \<Longrightarrow> r \<noteq> direction p \<Longrightarrow> heap (snd (update p s)) r = heap s r"
  by (simp add: update_def destroy_def Let_def)

lemma update_scene_other:
  "m \<noteq> mesh p \<Longrightarrow> m \<in> set (scene (snd (update p s))) \<longleftrightarrow> m \<in> set (scene s)"
  by (simp add: update_def destroy_def Let_def scene_remove_def)

lemma forEach_heap_other:
  "r \<notin> set (projectile_refs ps) \<Longrightarrow> heap (snd (forEach ps s)) r = heap s r"
proof (induction ps arbitrary: s)
  case Nil
  then show ?case by simp
next
  case (Cons p ps)
  have r: "r \<noteq> mesh p" "r \<noteq> direction p" "r \<notin> set (projectile_refs ps)"
    using Cons.prems by simp_all
  show ?case
    using Cons.IH [OF r(3)] update_heap_other [OF r(1) r(2)]
    by (simp add: forEach_Cons del: forEach.simps(2))
qed

lemma forEach_scene_other:
  "m \<notin> mesh ` set ps \<Longrightarrow> m \<in> set (scene (snd (forEach ps s))) \<longleftrightarrow> m \<in> set (scene s)"
proof (induction ps arbitrary: s)
  case Nil
  then show ?case by simp
next
  case (Cons p ps)
  have m: "m \<noteq> mesh p" "m \<notin> mesh ` set ps"
    using Cons.prems by simp_all
  show ?case
    using Cons.IH [OF m(2)] update_scene_other [OF m(1)]
    by (simp add: forEach_Cons del: forEach.simps(2))
qed

lemma forEach_mesh_set: "mesh ` set (fst (forEach ps s)) = mesh ` set ps"
  using arg_cong [OF forEach_meshes(1) [of ps s], of set] by (simp del: forEach_meshes)

text \<open>What one call of \<open>update\<close> does to a projectile whose two vectors are different objects.\<close>

lemma update_own:
  assumes "mesh p \<noteq> direction p"
  shows "heap (snd (update p s)) (direction p)
           = multiplyScalar (heap s (direction p)) PROJECTILE_SPEED"
    and "heap (snd (update p s)) (mesh p)
           = add_vec (heap s (mesh p)) (multiplyScalar (heap s (direction p)) PROJECTILE_SPEED)"
    and "alive (fst (update p s))
           \<longleftrightarrow> alive p \<and> \<not> 10 < length_vec (heap (snd (update p s)) (mesh p))"
    and "distinct (scene s) \<Longrightarrow> mesh p \<in> set (scene (snd (update p s)))
           \<longleftrightarrow> mesh p \<in> set (scene s) \<and> \<not> 10 < length_vec (heap (snd (update p s)) (mesh p))"
  using assms by (simp_all add: update_def destroy_def Let_def scene_remove_def)

text \<open>
  The outcome of a pass for one projectile of the collection: it is updated exactly
  once, and no other iteration touches its vectors or its mesh.
\<close>

lemma forEach_member:
  assumes "distinct (projectile_refs ps)" and "p \<in> set ps" and "distinct (scene s)"
  shows "heap (snd (forEach ps s)) (direction p)
           = multiplyScalar (heap s (direction p)) PROJECTILE_SPEED \<and>
         heap (snd (forEach ps s)) (mesh p)
           = add_vec (heap s (mesh p)) (multiplyScalar (heap s (direction p)) PROJECTILE_SPEED) \<and>
         (mesh p \<in> set (scene (snd (forEach ps s)))
           \<longleftrightarrow> mesh p \<in> set (scene s) \<and> \<not> 10 < length_vec (heap (snd (forEach ps s)) (mesh p))) \<and>
         (\<forall>q \<in> set (fst (forEach ps s)). mesh q = mesh p \<longrightarrow>
            direction q = direction p \<and>
            (alive q \<longleftrightarrow> alive p \<and> \<not> 10 < length_vec (heap (snd (forEach ps s)) (mesh p)))) \<and>
         (\<exists>q \<in> set (fst (forEach ps s)). mesh q = mesh p)"
  using assms
proof (induction ps arbitrary: s)
  case Nil
  then show ?case by simp
next
  case (Cons a ps)
  let ?a' = "fst (update a s)"
  let ?s1 = "snd (update a s)"
  let ?s2 = "proximity ?a' ?s1"
  let ?s3 = "snd (forEach ps ?s2)"
  have fe: "fst (forEach (a # ps) s) = ?a' # fst (forEach ps ?s2)"
    "snd (forEach (a # ps) s) = ?s3"
    by (simp_all add: forEach_Cons del: forEach.simps(2))
  have da: "mesh a \<noteq> direction a" "mesh a \<notin> set (projectile_refs ps)"
    "direction a \<notin> set (projectile_refs ps)" "distinct (projectile_refs ps)"
    using Cons.prems(1) by auto
  have ds2: "distinct (scene ?s2)"
    using Cons.prems(3) by (simp add: update_scene_distinct)
  show ?case
  proof (cases "p = a")
    case True
    have h1: "heap ?s3 (direction a) = heap ?s1 (direction a)"
      "heap ?s3 (mesh a) = heap ?s1 (mesh a)"
      using forEach_heap_other [OF da(3), of ?s2] forEach_heap_other [OF da(2), of ?s2]
      by simp_all
    have ma: "mesh a \<notin> mesh ` set ps"
      using da(2) by (simp add: set_projectile_refs)
    have sc: "mesh a \<in> set (scene ?s3) \<longleftrightarrow> mesh a \<in> set (scene ?s1)"
      using forEach_scene_other [OF ma, of ?s2] by simp
    have nm: "\<forall>q \<in> set (fst (forEach ps ?s2)). mesh q \<noteq> mesh a"
    proof
      fix q assume "q \<in> set (fst (forEach ps ?s2))"
      then have "mesh q \<in> mesh ` set (fst (forEach ps ?s2))" by simp
      then have "mesh q \<in> mesh ` set ps" by (simp only: forEach_mesh_set)
      with ma show "mesh q \<noteq> mesh a" by auto
    qed
    show ?thesis
      unfolding True fe
      using update_own [OF da(1), of s] Cons.prems(3) h1 sc nm by simp
  next
    case False
    then have p: "p \<in> set ps" using Cons.prems(2) by simp
    then have pr: "mesh p \<in> set (projectile_refs ps)" "direction p \<in> set (projectile_refs ps)"
      by (auto simp: set_projectile_refs)
    have ne: "mesh p \<noteq> mesh a" "mesh p \<noteq> direction a" "direction p \<noteq> mesh a"
      "direction p \<noteq> direction a"
      using pr da(2) da(3) by auto
    have h2: "heap ?s1 (direction p) = heap s (direction p)"
      "heap ?s1 (mesh p) = heap s (mesh p)"
      using update_heap_other [OF ne(3) ne(4), of s] update_heap_other [OF ne(1) ne(2), of s]
      by simp_all
    have sc2: "mesh p \<in> set (scene ?s1) \<longleftrightarrow> mesh p \<in> set (scene s)"
      using update_scene_other [OF ne(1), of s] by simp
    note ih = Cons.IH [OF da(4) p ds2]
    show ?thesis
      unfolding fe using ih ne(1) by (simp add: h2 sc2)
  qed
qed

section \<open>Passes without the text meshes\<close>










section \<open>One projectile in a frame\<close>

lemma animate_pass:
  "\<exists>s0. animate s = updateProjectiles s0 \<and> heap s0 = heap s \<and> scene s0 = scene s \<and>
        projectiles s0 = projectiles s \<and> fresh s0 = fresh s \<and>
        letterN s0 = letterN s \<and> number1 s0 = number1 s"
  unfolding animate_def
  by (rule exI, rule conjI, rule refl) simp

lemma updateProjectiles_member:
  assumes "well_formed s" and "p \<in> set (projectiles s)" and "alive p"
  shows "heap (updateProjectiles s) (direction p)
           = multiplyScalar (heap s (direction p)) PROJECTILE_SPEED \<and>
         heap (updateProjectiles s) (mesh p)
           = add_vec (heap s (mesh p)) (multiplyScalar (heap s (direction p)) PROJECTILE_SPEED) \<and>
         (mesh p \<in> set (scene (updateProjectiles s))
           \<longleftrightarrow> mesh p \<in> set (scene s) \<and> \<not> 10 < length_vec (heap (updateProjectiles s) (mesh p))) \<and>
         (\<forall>q \<in> set (projectiles (updateProjectiles s)). mesh q = mesh p \<longrightarrow>
            direction q = direction p \<and>
            (alive q \<longleftrightarrow> \<not> 10 < length_vec (heap (updateProjectiles s) (mesh p)))) \<and>
         (\<exists>q \<in> set (projectiles (updateProjectiles s)). mesh q = mesh p)"
proof -
  let ?ps = "filter alive (projectiles s)"
  have "distinct (fixed_refs s @ projectile_refs ?ps)"
    using assms(1) distinct_projectile_refs_filter [of "fixed_refs s" "projectiles s" alive]
    by (simp add: well_formed_def)
  then have d: "distinct (projectile_refs ?ps)" by simp
  have p: "p \<in> set ?ps" using assms(2,3) by simp
  have sc: "distinct (scene s)" using assms(1) by (simp add: well_formed_def)
  have f: "heap (updateProjectiles s) = heap (snd (forEach ?ps s))"
    "scene (updateProjectiles s) = scene (snd (forEach ?ps s))"
    "projectiles (updateProjectiles s) = fst (forEach ?ps s)"
    by (simp_all add: updateProjectiles_unfold)
  have a: "(alive p \<and> X) = X" for X using assms(3) by simp
  show ?thesis
    unfolding f using forEach_member [OF d p sc] unfolding a .
qed

lemma animate_member:
  assumes "well_formed s" and "p \<in> set (projectiles s)" and "alive p"
  shows "heap (animate s) (direction p)
           = multiplyScalar (heap s (direction p)) PROJECTILE_SPEED \<and>
         heap (animate s) (mesh p)
           = add_vec (heap s (mesh p)) (multiplyScalar (heap s (direction p)) PROJECTILE_SPEED) \<and>
         (mesh p \<in> set (scene (animate s))
           \<longleftrightarrow> mesh p \<in> set (scene s) \<and> \<not> 10 < length_vec (heap (animate s) (mesh p))) \<and>
         (\<forall>q \<in> set (projectiles (animate s)). mesh q = mesh p \<longrightarrow>
            direction q = direction p \<and>
            (alive q \<longleftrightarrow> \<not> 10 < length_vec (heap (animate s) (mesh p)))) \<and>
         (\<exists>q \<in> set (projectiles (animate s)). mesh q = mesh p)"
proof -
  obtain s0 where s0: "animate s = updateProjectiles s0" "heap s0 = heap s" "scene s0 = scene s"
    "projectiles s0 = projectiles s" "fresh s0 = fresh s" "letterN s0 = letterN s"
    "number1 s0 = number1 s"
    using animate_pass [of s] by blast
  have w: "well_formed s0"
    using assms(1) s0 by (simp add: well_formed_def fixed_refs_def)
  have p: "p \<in> set (projectiles s0)" using assms(2) s0 by simp
  show ?thesis
    using updateProjectiles_member [OF w p assms(3)] by (simp add: s0)
qed

lemma animate_collection:
  "list_all2 (\<lambda>p q. alive p \<and> mesh q = mesh p \<and> direction q = direction p)
     (filter alive (projectiles s)) (projectiles (animate s))"
proof -
  have g: "map mesh qs = map mesh ps \<Longrightarrow> map direction qs = map direction ps \<Longrightarrow>
           list_all alive ps \<Longrightarrow>
           list_all2 (\<lambda>p q. alive p \<and> mesh q = mesh p \<and> direction q = direction p) ps qs"
    for ps qs :: "Projectile list"
  proof (induction ps arbitrary: qs)
    case Nil
    then show ?case by simp
  next
    case (Cons p ps)
    then obtain q qs' where "qs = q # qs'" by (cases qs) auto
    with Cons show ?case by simp
  qed
  obtain s0 where s0: "animate s = updateProjectiles s0" "projectiles s0 = projectiles s"
    using animate_pass [of s] by blast
  show ?thesis
    by (rule g) (simp_all add: s0 updateProjectiles_unfold list_all_iff)
qed

lemma animate_mesh_set:
  "mesh ` set (projectiles (animate s)) = mesh ` set (filter alive (projectiles s))"
proof -
  obtain s0 where s0: "animate s = updateProjectiles s0" "projectiles s0 = projectiles s"
    using animate_pass [of s] by blast
  show ?thesis
    by (simp add: s0 updateProjectiles_unfold forEach_mesh_set)
qed

lemma absent_after_frame:
  assumes "\<forall>q \<in> set (projectiles t). mesh q = m \<longrightarrow> \<not> alive q"
  shows "\<forall>q \<in> set (projectiles (animate t)). mesh q \<noteq> m"
proof
  fix q assume "q \<in> set (projectiles (animate t))"
  then have "mesh q \<in> mesh ` set (projectiles (animate t))" by simp
  then have "mesh q \<in> mesh ` set (filter alive (projectiles t))"
    by (simp only: animate_mesh_set)
  then show "mesh q \<noteq> m" using assms by auto
qed

lemma dead_stays_dead_keydown:
  assumes "m < fresh t" and "\<forall>q \<in> set (projectiles t). mesh q = m \<longrightarrow> \<not> alive q"
  shows "m < fresh (keydown k a b c t) \<and>
         (\<forall>q \<in> set (projectiles (keydown k a b c t)). mesh q = m \<longrightarrow> \<not> alive q)"
proof (cases "k = '' ''")
  case True
  then show ?thesis using assms by (auto simp: keydown_space)
next
  case False
  then show ?thesis using assms by (simp add: keydown_move_fields)
qed

lemma dead_stays_dead_keys:
  assumes "m < fresh t" and "\<forall>q \<in> set (projectiles t). mesh q = m \<longrightarrow> \<not> alive q"
  shows "m < fresh (run (map (\<lambda>(k, a, b, c). KeyDown k a b c) ks) t) \<and>
         (\<forall>q \<in> set (projectiles (run (map (\<lambda>(k, a, b, c). KeyDown k a b c) ks) t)).
            mesh q = m \<longrightarrow> \<not> alive q)"
  using assms
proof (induction ks arbitrary: t)
  case Nil
  then show ?case by simp
next
  case (Cons x ks)
  obtain k a b c where x: "x = (k, a, b, c)" by (cases x)
  note d = dead_stays_dead_keydown [OF Cons.prems, of k a b c]
  show ?case
    using Cons.IH [OF conjunct1 [OF d] conjunct2 [OF d]] by (simp add: x)
qed

lemma mesh_allocated:
  "well_formed s \<Longrightarrow> p \<in> set (projectiles s) \<Longrightarrow> mesh p < fresh s \<and> direction p < fresh s"
  by (auto simp: well_formed_def list_all_iff set_projectile_refs)

lemma out_of_range_in_frame:
  assumes "well_formed s" and "p \<in> set (projectiles s)" and "alive p"
    and "10 < length_vec (heap (animate s) (mesh p))"
  shows "heap (animate s) (mesh p)
           = add_vec (heap s (mesh p)) (multiplyScalar (heap s (direction p)) PROJECTILE_SPEED) \<and>
         (\<exists>q \<in> set (projectiles (animate s)). mesh q = mesh p) \<and>
         (\<forall>q \<in> set (projectiles (animate s)). mesh q = mesh p \<longrightarrow> \<not> alive q) \<and>
         mesh p \<notin> set (scene (animate s)) \<and>
         (\<forall>ks. \<forall>q \<in> set (projectiles
                   (animate (run (map (\<lambda>(k, a, b, c). KeyDown k a b c) ks) (animate s)))).
            mesh q \<noteq> mesh p)"
proof -
  note m = animate_member [OF assms(1,2,3)]
  have dead: "\<forall>q \<in> set (projectiles (animate s)). mesh q = mesh p \<longrightarrow> \<not> alive q"
    using m assms(4) by simp
  have fr: "mesh p < fresh (animate s)"
    using mesh_allocated [OF assms(1,2)] animate_pass [of s]
    by (auto simp: updateProjectiles_unfold)
  have nxt: "\<forall>q \<in> set (projectiles
                   (animate (run (map (\<lambda>(k, a, b, c). KeyDown k a b c) ks) (animate s)))).
            mesh q \<noteq> mesh p" for ks
    by (rule absent_after_frame) (rule conjunct2 [OF dead_stays_dead_keys [OF fr dead]])
  show ?thesis
    using m dead nxt assms(4) by simp
qed

section \<open>The two-projectile scene\<close>

lemma two_shots_fields:
  "letterN two_shots = Some 3"
  "number1 two_shots = Some 4"
  "projectiles two_shots = [\<lparr>mesh = 7, direction = 6, alive = True\<rparr>, \<lparr>mesh = 10, direction = 9, alive = True\<rparr>]"
  "heap two_shots 3 = Vector3 (- 2) 0 0"
  "heap two_shots 4 = Vector3 2 0 0"
  "heap two_shots 7 = Vector3 0 0 0"
  "heap two_shots 6 = Vector3 (- 1) 0 0"
  "heap two_shots 10 = Vector3 0 0 0"
  "heap two_shots 9 = Vector3 1 0 0"
  by (simp_all add: two_shots_def init_def font_loaded_def keydown_def new_Vector3_def clone_def
      new_Projectile_def Let_def scene_add_def cubeMesh_def camera_def normalize_axis)

lemma animate_two_shots:
  "alphabet_ambientIntensity (animate two_shots) = 0.401"
  "digit_ambientIntensity (animate two_shots) = 0.8"
  "projectiles (animate two_shots) = [\<lparr>mesh = 7, direction = 6, alive = True\<rparr>, \<lparr>mesh = 10, direction = 9, alive = True\<rparr>]"
  "heap (animate two_shots) 7 = Vector3 (- 0.1) 0 0"
  "heap (animate two_shots) 3 = Vector3 (- 2) 0 0"
  by (simp_all add: animate_def updateProjectiles_def two_shots_fields update_def proximity_def
      Let_def PROJECTILE_SPEED_def DETECTION_RADIUS_def multiplyScalar_def add_vec_def
      distanceTo_lt_iff distanceToSquared_def destroy_def)

section \<open>The out-of-range scene\<close>

lemma run_append: "run (es @ fs) s = run fs (run es s)"
  by (induction es arbitrary: s) simp_all

lemma keydown_w:
  "keydown ''w'' r1 r2 r3 s =
     s\<lparr>heap := (heap s)(cubeMesh :=
          Vector3 (vx (heap s cubeMesh)) (vy (heap s cubeMesh) + 0.1) (vz (heap s cubeMesh)))\<rparr>"
  by (simp add: keydown_def set_y_def)

lemma run_w:
  "run (replicate n (KeyDown ''w'' r1 r2 r3)) s =
     s\<lparr>heap := (heap s)(cubeMesh :=
          Vector3 (vx (heap s cubeMesh)) (vy (heap s cubeMesh) + real n * 0.1) (vz (heap s cubeMesh)))\<rparr>"
proof (induction n arbitrary: s)
  case 0
  then show ?case by simp
next
  case (Suc n)
  have e: "vy (heap s cubeMesh) + real (Suc n) * 0.1 = vy (heap s cubeMesh) + 0.1 + real n * 0.1"
    by (simp add: algebra_simps)
  show ?case
    unfolding e by (simp add: Suc keydown_w cong: if_cong)
qed

lemma far_shot_fields:
  "letterN far_shot = None"
  "projectiles far_shot = [\<lparr>mesh = 5, direction = 4, alive = True\<rparr>]"
  "scene far_shot = [cubeMesh, ambientLight, 5]"
  "heap far_shot 5 = Vector3 0 10.1 0"
  "heap far_shot 4 = Vector3 1 0 0"
  by (simp_all add: far_shot_def run_append run_w keydown_space init_def scene_add_def
      cubeMesh_def camera_def ambientLight_def normalize_axis)

lemma animate_far_shot:
  "projectiles (animate far_shot) = [\<lparr>mesh = 5, direction = 4, alive = False\<rparr>]"
  "scene (animate far_shot) = [cubeMesh, ambientLight]"
  "heap (animate far_shot) 5 = Vector3 0.1 10.1 0"
  by (simp_all add: animate_def updateProjectiles_def far_shot_fields update_def proximity_def
      Let_def PROJECTILE_SPEED_def multiplyScalar_def add_vec_def length_vec_gt_iff
      destroy_def scene_remove_def cubeMesh_def ambientLight_def)

lemma wf_far_shot: "well_formed far_shot"
  unfolding far_shot_def by (rule wf_run [OF wf_init])

section \<open>The single-projectile scene\<close>

lemma one_shot_fields:
  "letterN one_shot = None"
  "projectiles one_shot = [\<lparr>mesh = 5, direction = 4, alive = True\<rparr>]"
  "heap one_shot 5 = Vector3 0 0 0"
  "heap one_shot 4 = Vector3 1 0 0"
  by (simp_all add: one_shot_def keydown_space init_def cubeMesh_def camera_def normalize_axis)

lemma wf_one_shot: "well_formed one_shot"
  unfolding one_shot_def by (rule wf_keydown [OF wf_init])

section \<open>The diagonal direction\<close>




section \<open>What the handlers leave alone\<close>



lemma keydown_heap_other:
  "r \<noteq> cubeMesh \<Longrightarrow> r \<noteq> camera \<Longrightarrow> r < fresh s \<Longrightarrow> heap (keydown k a b c s) r = heap s r"
  by (simp add: keydown_def clone_def new_Vector3_def new_Projectile_def Let_def)

lemma keydown_projectiles:
  "\<exists>qs. projectiles (keydown k a b c s) = projectiles s @ qs \<and>
        list_all (\<lambda>q. fresh s \<le> mesh q \<and> fresh s \<le> direction q) qs"
proof (cases "k = '' ''")
  case True
  then show ?thesis by (simp add: keydown_space)
next
  case False
  then show ?thesis by (simp add: keydown_move_fields)
qed

lemma keydown_fixed_refs: "fixed_refs (keydown k a b c s) = fixed_refs s"
  by (simp add: fixed_refs_def keydown_fields)

lemma cube_camera_fixed: "cubeMesh \<in> set (fixed_refs s)" "camera \<in> set (fixed_refs s)"
  by (simp_all add: fixed_refs_def)

lemma font_loaded_scene: "m \<in> set (scene s) \<Longrightarrow> m \<in> set (scene (font_loaded s))"
proof -
  have a: "m \<in> set xs \<Longrightarrow> m \<in> set (scene_add n xs)" for n xs
    unfolding scene_add_def by (cases "m = n") simp_all
  assume "m \<in> set (scene s)"
  then show ?thesis
    unfolding font_loaded_eq by (simp add: a)
qed

lemma frames_Cons: "frames (e # es) = (if e = Frame then Suc (frames es) else frames es)"
  by (simp add: frames_def)

lemma multiplyScalar_one [simp]: "multiplyScalar v 1 = v"
  by (simp add: multiplyScalar_def)

lemma add_vec_zero [simp]: "add_vec x (multiplyScalar v 0) = x"
  by (simp add: add_vec_def multiplyScalar_def)

lemma projectile_not_fixed:
  "well_formed s \<Longrightarrow> q \<in> set (projectiles s) \<Longrightarrow>
   mesh q \<notin> set (fixed_refs s) \<and> direction q \<notin> set (fixed_refs s)"
  by (auto simp: well_formed_def set_projectile_refs)

lemma keys_leave_projectiles:
  assumes "well_formed t" and "q \<in> set (projectiles t)"
  shows "heap (run (map (\<lambda>(k, a, b, c). KeyDown k a b c) ks) t) (mesh q) = heap t (mesh q) \<and>
         heap (run (map (\<lambda>(k, a, b, c). KeyDown k a b c) ks) t) (direction q)
           = heap t (direction q)"
  using assms
proof (induction ks arbitrary: t)
  case Nil
  then show ?case by simp
next
  case (Cons x ks)
  obtain k a b c where x: "x = (k, a, b, c)" by (cases x)
  have nf: "mesh q \<noteq> cubeMesh" "mesh q \<noteq> camera" "direction q \<noteq> cubeMesh"
    "direction q \<noteq> camera"
    using projectile_not_fixed [OF Cons.prems] cube_camera_fixed [of t] by auto
  have al: "mesh q < fresh t" "direction q < fresh t"
    using mesh_allocated [OF Cons.prems] by simp_all
  have h: "heap (keydown k a b c t) (mesh q) = heap t (mesh q)"
    "heap (keydown k a b c t) (direction q) = heap t (direction q)"
    using nf al by (simp_all add: keydown_heap_other)
  have w: "well_formed (keydown k a b c t)" using Cons.prems(1) by (rule wf_keydown)
  have q: "q \<in> set (projectiles (keydown k a b c t))"
    using keydown_projectiles [of k a b c t] Cons.prems(2) by auto
  show ?case
    using Cons.IH [OF w q] h by (simp add: x)
qed

section \<open>Rounding to the nearest double\<close>

lemma round_half_even_error: "\<bar>of_int (round_half_even t) - t\<bar> \<le> 1/2"
proof -
  define r where "r = t - of_int \<lfloor>t\<rfloor>"
  have r: "0 \<le> r" "r < 1" unfolding r_def by linarith+
  have t: "t = of_int \<lfloor>t\<rfloor> + r" by (simp add: r_def)
  consider "r < 1/2" | "1/2 < r" | "r = 1/2" by linarith
  then show ?thesis
  proof cases
    case 1
    then have "round_half_even t = \<lfloor>t\<rfloor>"
      by (simp add: round_half_even_def r_def)
    then show ?thesis using 1 r t by simp
  next
    case 2
    then have "round_half_even t = \<lfloor>t\<rfloor> + 1"
      by (simp add: round_half_even_def r_def)
    then show ?thesis using 2 r t by simp
  next
    case 3
    then have "round_half_even t = \<lfloor>t\<rfloor> \<or> round_half_even t = \<lfloor>t\<rfloor> + 1"
      by (simp add: round_half_even_def r_def Let_def)
    then show ?thesis using 3 t by auto
  qed
qed

lemma round_half_even_int [simp]: "round_half_even (of_int n) = n"
  by (simp add: round_half_even_def)

lemma round_half_even_small: "\<bar>t\<bar> < 1/2 \<Longrightarrow> round_half_even t = 0"
proof -
  assume "\<bar>t\<bar> < 1/2"
  with round_half_even_error [of t] have "\<bar>real_of_int (round_half_even t)\<bar> < 1" by linarith
  then show ?thesis by linarith
qed

lemma floor_log2_iff:
  "x \<noteq> 0 \<Longrightarrow> \<lfloor>log 2 \<bar>x\<bar>\<rfloor> = k \<longleftrightarrow> 2 powi k \<le> \<bar>x\<bar> \<and> \<bar>x\<bar> < 2 powi (k + 1)"
proof -
  assume x: "x \<noteq> 0"
  have a: "2 powr real_of_int k = 2 powi k"
    by (simp add: powr_real_of_int')
  have "2 powr real_of_int (k + 1) = 2 powi (k + 1)"
    by (rule powr_real_of_int') simp_all
  then have b: "2 powr (real_of_int k + 1) = 2 powi (k + 1)" by simp
  show ?thesis
    using floor_log_eq_powr_iff [of "\<bar>x\<bar>" 2 k] x by (simp add: a b)
qed

lemma floor_log2_bounds:
  assumes "x \<noteq> 0"
  shows "2 powi \<lfloor>log 2 \<bar>x\<bar>\<rfloor> \<le> \<bar>x\<bar>" and "\<bar>x\<bar> < 2 powi (\<lfloor>log 2 \<bar>x\<bar>\<rfloor> + 1)"
  using floor_log2_iff [OF assms, of "\<lfloor>log 2 \<bar>x\<bar>\<rfloor>"] by simp_all

lemma pow2_less_imp: "(2::real) powi a < 2 powi b \<Longrightarrow> a < b"
  by (rule ccontr) (use power_int_increasing [of b a "2::real"] in auto)

lemma pow2_mono: "a \<le> b \<Longrightarrow> (2::real) powi a \<le> 2 powi b"
  by (rule power_int_increasing) simp_all

lemma pow2_nat: "0 \<le> k \<Longrightarrow> (2::real) powi k = 2 ^ nat k"
  by (simp add: power_int_def)

lemma ilog2_bounds:
  assumes "0 < x"
  shows "2 powi ilog2 x \<le> x" and "x < 2 powi (ilog2 x + 1)"
proof -
  have "2 powi ilog2 x \<le> x \<and> x < 2 powi (ilog2 x + 1)"
  proof (cases "1 \<le> x")
    case True
    define n where "n = \<lfloor>x\<rfloor>"
    have n: "0 < n" "of_int n \<le> x" "x < of_int n + 1"
      unfolding n_def using True by linarith+
    define b where "b = bitlen n"
    have b: "2 ^ nat (b - 1) \<le> n" "n < 2 ^ nat b"
      unfolding b_def using bitlen_bounds [OF n(1)] by simp_all
    have b1: "1 \<le> b" unfolding b_def using n(1) by (simp add: bitlen_alt_def)
    have i: "ilog2 x = b - 1" using True by (simp add: ilog2_def b_def n_def)
    have c: "real_of_int (2 ^ nat (b - 1)) = 2 ^ nat (b - 1)" "real_of_int (2 ^ nat b) = 2 ^ nat b"
      "real_of_int (n + 1) = of_int n + 1"
      by simp_all
    have "real_of_int (2 ^ nat (b - 1)) \<le> of_int n" by (rule iffD2 [OF of_int_le_iff b(1)])
    then have lo: "(2::real) ^ nat (b - 1) \<le> x" unfolding c using n(2) by linarith
    have "n + 1 \<le> 2 ^ nat b" using b(2) by simp
    then have "real_of_int (n + 1) \<le> of_int (2 ^ nat b)" by (rule iffD2 [OF of_int_le_iff])
    then have hi: "x < 2 ^ nat b" unfolding c using n(3) by linarith
    show ?thesis
      unfolding i using lo hi b1 by (simp add: pow2_nat)
  next
    case False
    define y where "y = 1 / x"
    have y: "1 < y" "0 < y" "x = 1 / y" unfolding y_def using False assms by simp_all
    define m where "m = \<lceil>y\<rceil> - 1"
    have m: "0 < m" "of_int m < y" "y \<le> of_int m + 1"
      unfolding m_def using y(1) by linarith+
    define b where "b = bitlen m"
    have b: "2 ^ nat (b - 1) \<le> m" "m < 2 ^ nat b"
      unfolding b_def using bitlen_bounds [OF m(1)] by simp_all
    have b1: "1 \<le> b" unfolding b_def using m(1) by (simp add: bitlen_alt_def)
    have i: "ilog2 x = - b" using False by (simp add: ilog2_def b_def m_def y_def)
    have c: "real_of_int (2 ^ nat (b - 1)) = 2 ^ nat (b - 1)" "real_of_int (2 ^ nat b) = 2 ^ nat b"
      "real_of_int (m + 1) = of_int m + 1"
      by simp_all
    have "m + 1 \<le> 2 ^ nat b" using b(2) by simp
    then have "real_of_int (m + 1) \<le> of_int (2 ^ nat b)" by (rule iffD2 [OF of_int_le_iff])
    then have "y \<le> 2 ^ nat b" unfolding c using m(3) by linarith
    then have yb: "y \<le> 2 powi b" using b1 by (simp add: pow2_nat)
    have "real_of_int (2 ^ nat (b - 1)) \<le> of_int m" by (rule iffD2 [OF of_int_le_iff b(1)])
    then have "(2::real) ^ nat (b - 1) < y" unfolding c using m(2) by linarith
    then have by': "2 powi (b - 1) < y" using b1 by (simp add: pow2_nat)
    have "1 / 2 powi b \<le> 1 / y" using yb y(2) by (intro divide_left_mono) simp_all
    then have lo: "2 powi (- b) \<le> x" unfolding y(3) by (simp add: power_int_minus field_simps)
    have "1 / y < 1 / 2 powi (b - 1)"
      using by' y(2) by (intro divide_strict_left_mono) simp_all
    moreover have "(2::real) powi (- b + 1) = 1 / 2 powi (b - 1)"
      using power_int_minus [of "2::real" "b - 1"] by (simp add: field_simps)
    ultimately have hi: "x < 2 powi (- b + 1)" unfolding y(3) by simp
    show ?thesis unfolding i using lo hi by simp
  qed
  then show "2 powi ilog2 x \<le> x" and "x < 2 powi (ilog2 x + 1)" by simp_all
qed

lemma ilog2_log: "x \<noteq> 0 \<Longrightarrow> ilog2 \<bar>x\<bar> = \<lfloor>log 2 \<bar>x\<bar>\<rfloor>"
proof -
  assume x: "x \<noteq> 0"
  then have "0 < \<bar>x\<bar>" by simp
  from ilog2_bounds [OF this] show ?thesis
    using floor_log2_iff [OF x, of "ilog2 \<bar>x\<bar>"] by simp
qed

lemma exponent_d_log: "x \<noteq> 0 \<Longrightarrow> exponent_d x = max (\<lfloor>log 2 \<bar>x\<bar>\<rfloor> - 52) (- 1074)"
  by (simp add: exponent_d_def ilog2_log)

lemma exponent_d_ge: "- 1074 \<le> exponent_d x"
  by (simp add: exponent_d_def)

lemma exponent_d_upper:
  assumes "x \<noteq> 0"
  shows "\<bar>x\<bar> < 2 powi (exponent_d x + 53)"
proof -
  have "\<lfloor>log 2 \<bar>x\<bar>\<rfloor> + 1 \<le> exponent_d x + 53" by (simp add: exponent_d_log [OF assms])
  then have "(2::real) powi (\<lfloor>log 2 \<bar>x\<bar>\<rfloor> + 1) \<le> 2 powi (exponent_d x + 53)"
    by (rule pow2_mono)
  with floor_log2_bounds(2) [OF assms] show ?thesis by linarith
qed

lemma exponent_d_eq:
  assumes "- 1074 \<le> e" and "2 powi (e + 52) \<le> \<bar>x\<bar>" and "\<bar>x\<bar> < 2 powi (e + 53)"
  shows "exponent_d x = e"
proof -
  have "0 < (2::real) powi (e + 52)" by simp
  with assms(2) have "0 < \<bar>x\<bar>" by linarith
  then have x: "x \<noteq> 0" by simp
  then have "\<lfloor>log 2 \<bar>x\<bar>\<rfloor> = e + 52"
    using assms(2,3) by (simp add: floor_log2_iff add.commute add.left_commute)
  then show ?thesis using assms(1) by (simp add: exponent_d_log [OF x])
qed

lemma exponent_d_normal:
  assumes "2 powi (- 1022) \<le> \<bar>x\<bar>"
  shows "2 powi (exponent_d x + 52) \<le> \<bar>x\<bar>"
proof -
  have "0 < (2::real) powi (- 1022)" by simp
  with assms have "0 < \<bar>x\<bar>" by linarith
  then have x: "x \<noteq> 0" by simp
  have "(2::real) powi (- 1022) < 2 powi (\<lfloor>log 2 \<bar>x\<bar>\<rfloor> + 1)"
    using assms floor_log2_bounds(2) [OF x] by linarith
  then have "- 1022 < \<lfloor>log 2 \<bar>x\<bar>\<rfloor> + 1" by (rule pow2_less_imp)
  then have "exponent_d x + 52 = \<lfloor>log 2 \<bar>x\<bar>\<rfloor>" unfolding exponent_d_log [OF x] by linarith
  then show ?thesis using floor_log2_bounds(1) [OF x] by simp
qed

lemma exponent_d_subnormal:
  assumes "x \<noteq> 0" and "\<bar>x\<bar> < 2 powi (- 1022)"
  shows "exponent_d x = - 1074"
proof -
  have "(2::real) powi \<lfloor>log 2 \<bar>x\<bar>\<rfloor> < 2 powi (- 1022)"
    using assms(2) floor_log2_bounds(1) [OF assms(1)] by linarith
  then have "\<lfloor>log 2 \<bar>x\<bar>\<rfloor> < - 1022" by (rule pow2_less_imp)
  then show ?thesis unfolding exponent_d_log [OF assms(1)] by linarith
qed

lemma fl_zero [simp]: "fl 0 = 0"
  by (simp add: fl_def round_half_even_def)

lemma fl_error_ulp: "\<bar>fl x - x\<bar> \<le> 2 powi exponent_d x / 2"
proof -
  let ?p = "(2::real) powi exponent_d x"
  have p: "0 < ?p" by simp
  have "fl x - x = (of_int (round_half_even (x / ?p)) - x / ?p) * ?p"
    using p by (simp add: fl_def field_simps)
  then have "\<bar>fl x - x\<bar> = \<bar>of_int (round_half_even (x / ?p)) - x / ?p\<bar> * ?p"
    using p by (simp add: abs_mult)
  also have "\<dots> \<le> 1/2 * ?p"
    using round_half_even_error [of "x / ?p"] p by (intro mult_right_mono) simp_all
  finally show ?thesis by simp
qed

lemma fl_error_normal:
  assumes "2 powi (- 1022) \<le> \<bar>x\<bar>"
  shows "\<bar>fl x - x\<bar> \<le> \<bar>x\<bar> / 2 ^ 53"
proof -
  have "(2::real) powi (exponent_d x + 52) = 2 powi exponent_d x * 2 ^ 52"
    by (simp add: power_int_add)
  with exponent_d_normal [OF assms] have "2 powi exponent_d x * 2 ^ 52 \<le> \<bar>x\<bar>" by simp
  then have "2 powi exponent_d x / 2 \<le> \<bar>x\<bar> / 2 ^ 53" by (simp add: field_simps)
  with fl_error_ulp [of x] show ?thesis by linarith
qed

lemma fl_error: "\<bar>fl x - x\<bar> \<le> \<bar>x\<bar> / 2 ^ 53 + 2 powi (- 1075)"
proof (cases "2 powi (- 1022) \<le> \<bar>x\<bar>")
  case True
  have "0 < (2::real) powi (- 1075)" by simp
  with fl_error_normal [OF True] show ?thesis by linarith
next
  case False
  show ?thesis
  proof (cases "x = 0")
    case True
    have "0 < (2::real) powi (- 1075)" by simp
    then show ?thesis using True by simp
  next
    case x: False
    have e: "exponent_d x = - 1074" using x False by (intro exponent_d_subnormal) simp_all
    have "(2::real) powi (- 1074) / 2 = 2 powi (- 1075)"
      using power_int_add [of "2::real" "- 1075" 1] by simp
    with fl_error_ulp [of x] e have "\<bar>fl x - x\<bar> \<le> 2 powi (- 1075)" by simp
    moreover have "0 \<le> \<bar>x\<bar> / 2 ^ 53" by simp
    ultimately show ?thesis by linarith
  qed
qed

lemma fl_small:
  assumes "\<bar>x\<bar> < 2 powi (- 1075)"
  shows "fl x = 0"
proof (cases "x = 0")
  case True
  then show ?thesis by simp
next
  case False
  have "(2::real) powi (- 1075) \<le> 2 powi (- 1022)" by (rule pow2_mono) simp
  then have e: "exponent_d x = - 1074" using False assms by (intro exponent_d_subnormal) simp_all
  have "(2::real) powi (- 1075) = 2 powi (- 1074) / 2"
    using power_int_add [of "2::real" "- 1075" 1] by simp
  then have "\<bar>x / 2 powi (- 1074)\<bar> < 1 / 2"
    using assms by (simp add: abs_divide field_simps)
  then have "round_half_even (x / 2 powi (- 1074)) = 0" by (rule round_half_even_small)
  then show ?thesis by (simp add: fl_def e)
qed

lemma fl_repr:
  assumes "\<bar>N\<bar> < 2 ^ 53" and "- 1074 \<le> e"
  shows "fl (of_int N * 2 powi e) = of_int N * 2 powi e"
proof (cases "N = 0")
  case True
  then show ?thesis by simp
next
  case False
  let ?v = "real_of_int N * 2 powi e"
  have v: "?v \<noteq> 0" using False by simp
  have "\<bar>?v\<bar> = real_of_int \<bar>N\<bar> * 2 powi e" by (simp add: abs_mult)
  also have "\<dots> < 2 ^ 53 * 2 powi e"
    using assms(1) by (intro mult_strict_right_mono) (simp_all flip: of_int_less_iff [where 'a = real])
  also have "\<dots> = 2 powi (e + 53)" by (simp add: power_int_add)
  finally have "\<bar>?v\<bar> < 2 powi (e + 53)" .
  with floor_log2_bounds(1) [OF v] have "(2::real) powi \<lfloor>log 2 \<bar>?v\<bar>\<rfloor> < 2 powi (e + 53)"
    by linarith
  then have "\<lfloor>log 2 \<bar>?v\<bar>\<rfloor> < e + 53" by (rule pow2_less_imp)
  then have le: "exponent_d ?v \<le> e" using assms(2) unfolding exponent_d_log [OF v] by linarith
  define E where "E = exponent_d ?v"
  define k where "k = nat (e - E)"
  have e: "e = E + int k" using le by (simp add: k_def E_def)
  have pe: "(2::real) powi e = 2 powi E * 2 ^ k"
    unfolding e by (simp add: power_int_add)
  have q: "?v / 2 powi E = of_int (N * 2 ^ k)"
    by (simp add: pe)
  have "fl ?v = of_int (round_half_even (?v / 2 powi E)) * 2 powi E"
    by (simp add: fl_def E_def)
  also have "\<dots> = of_int (N * 2 ^ k) * 2 powi E"
    unfolding q by (simp only: round_half_even_int)
  also have "\<dots> = ?v" by (simp add: pe)
  finally show ?thesis .
qed

lemma fl_idem [simp]: "fl (fl x) = fl x"
proof (cases "x = 0")
  case True
  then show ?thesis by simp
next
  case False
  let ?e = "exponent_d x"
  let ?N = "round_half_even (x / 2 powi ?e)"
  have p: "0 < (2::real) powi ?e" by simp
  have "\<bar>x / 2 powi ?e\<bar> < 2 ^ 53"
  proof -
    have "(2::real) powi (?e + 53) = 2 powi ?e * 2 ^ 53" by (simp add: power_int_add)
    with exponent_d_upper [OF False] have "\<bar>x\<bar> < 2 powi ?e * 2 ^ 53" by simp
    then show ?thesis using p by (simp add: abs_divide field_simps)
  qed
  with round_half_even_error [of "x / 2 powi ?e"] have "\<bar>real_of_int ?N\<bar> < 2 ^ 53 + 1"
    by linarith
  then have "\<bar>?N\<bar> < 2 ^ 53 + 1"
    by (simp flip: of_int_less_iff [where 'a = real])
  then have N: "\<bar>?N\<bar> < 2 ^ 53 \<or> ?N = 2 ^ 53 \<or> ?N = - (2 ^ 53)"
    by linarith
  have flx: "fl x = of_int ?N * 2 powi ?e" by (simp add: fl_def)
  from N show ?thesis
  proof (elim disjE)
    assume "\<bar>?N\<bar> < 2 ^ 53"
    then show ?thesis unfolding flx by (rule fl_repr) (rule exponent_d_ge)
  next
    assume n: "?N = 2 ^ 53"
    have "real_of_int ?N * 2 powi ?e = of_int (2 ^ 52) * 2 powi (?e + 1)"
      unfolding n by (simp add: power_int_add)
    moreover have "fl (of_int (2 ^ 52) * 2 powi (?e + 1)) = of_int (2 ^ 52) * 2 powi (?e + 1)"
      using exponent_d_ge [of x] by (intro fl_repr) simp_all
    ultimately show ?thesis unfolding flx by simp
  next
    assume n: "?N = - (2 ^ 53)"
    have "real_of_int ?N * 2 powi ?e = of_int (- (2 ^ 52)) * 2 powi (?e + 1)"
      unfolding n by (simp add: power_int_add)
    moreover have "fl (of_int (- (2 ^ 52)) * 2 powi (?e + 1)) = of_int (- (2 ^ 52)) * 2 powi (?e + 1)"
      using exponent_d_ge [of x] by (intro fl_repr) simp_all
    ultimately show ?thesis unfolding flx by simp
  qed
qed

lemma fl_value:
  assumes "- 1074 \<le> e" and "2 powi (e + 52) \<le> \<bar>x\<bar>" and "\<bar>x\<bar> < 2 powi (e + 53)"
    and "round_half_even (x / 2 powi e) = n"
  shows "fl x = of_int n * 2 powi e"
  using exponent_d_eq [OF assms(1,2,3)] assms(4) by (simp add: fl_def)

lemma speed_value: "PROJECTILE_SPEED_d = 3602879701896397 / 2 ^ 55"
proof -
  have "fl (1 / 10) = of_int 7205759403792794 * 2 powi (- 56)"
    by (rule fl_value) (simp_all add: round_half_even_def power_int_minus)
  then show ?thesis
    by (simp add: PROJECTILE_SPEED_d_def power_int_minus)
qed

lemma fl_nonneg: "0 \<le> x \<Longrightarrow> 0 \<le> fl x"
proof -
  assume x: "0 \<le> x"
  let ?t = "x / 2 powi exponent_d x"
  have "0 \<le> ?t" using x by simp
  then have "0 \<le> \<lfloor>?t\<rfloor>" by simp
  then have "0 \<le> round_half_even ?t"
    by (simp add: round_half_even_def Let_def)
  then show ?thesis by (simp add: fl_def)
qed

lemma eta_pos: "0 < eta"
  by (simp add: eta_def)

lemma eta_small: "eta \<le> 1 / 2 ^ 60"
proof -
  have "(2::real) powi (- 1075) \<le> 2 powi (- 60)" by (rule pow2_mono) simp
  also have "(2::real) powi (- 60) = 1 / 2 ^ 60"
    by (simp add: power_int_minus field_simps)
  finally show ?thesis unfolding eta_def .
qed

lemma pow2_1074: "(2::real) powi (- 1074) = 2 * eta"
  unfolding eta_def using power_int_add [of "2::real" "- 1075" 1] by simp

lemma pow2_1080: "(2::real) powi (- 1080) = eta / 32"
proof -
  have "(2::real) powi (- 1075) = 2 powi (- 1080) * 2 powi 5"
    using power_int_add [of "2::real" "- 1080" 5] by simp
  also have "(2::real) powi 5 = 32" by simp
  finally show ?thesis unfolding eta_def by simp
qed

lemma fl_err: "\<bar>fl x - x\<bar> \<le> \<bar>x\<bar> / 2 ^ 53 + eta"
  unfolding eta_def by (rule fl_error)

lemma fl_tiny: "\<bar>x\<bar> < eta \<Longrightarrow> fl x = 0"
  unfolding eta_def by (rule fl_small)

lemma fl_upper:
  assumes "0 \<le> x"
  shows "fl x \<le> x + x / 1000000 + eta"
proof -
  have "\<bar>fl x - x\<bar> \<le> x / 2 ^ 53 + eta" using fl_err [of x] assms by simp
  moreover have "x / 2 ^ 53 \<le> x / 1000000" using assms by (simp add: divide_left_mono)
  ultimately show ?thesis by linarith
qed

lemma normal_120: "(2::real) powi (- 1022) \<le> 1 / 2 ^ 120"
proof -
  have "(2::real) powi (- 1022) \<le> 2 powi (- 120)" by (rule pow2_mono) simp
  also have "(2::real) powi (- 120) = 1 / 2 ^ 120"
    by (simp add: power_int_minus field_simps)
  finally show ?thesis .
qed

lemma fl_rel:
  assumes "x = 0 \<or> 1 / 2 ^ 120 \<le> \<bar>x\<bar>"
  shows "\<bar>fl x - x\<bar> \<le> \<bar>x\<bar> / 2 ^ 53"
proof (cases "x = 0")
  case True
  then show ?thesis by simp
next
  case False
  then have "1 / 2 ^ 120 \<le> \<bar>x\<bar>" using assms by simp
  then have "2 powi (- 1022) \<le> \<bar>x\<bar>" using normal_120 by linarith
  then show ?thesis by (rule fl_error_normal)
qed

lemma fl_rel_nonneg:
  assumes "x = 0 \<or> 1 / 2 ^ 120 \<le> x"
  shows "x - x / 1000000 \<le> fl x" and "fl x \<le> x + x / 1000000"
proof -
  have x: "0 \<le> x" using assms by auto
  have "x = 0 \<or> 1 / 2 ^ 120 \<le> \<bar>x\<bar>" using assms by auto
  then have "\<bar>fl x - x\<bar> \<le> \<bar>x\<bar> / 2 ^ 53" by (rule fl_rel)
  then have e: "\<bar>fl x - x\<bar> \<le> x / 2 ^ 53" using x by simp
  have "x / 2 ^ 53 \<le> x / 1000000" using x by (simp add: divide_left_mono)
  with e show "x - x / 1000000 \<le> fl x" and "fl x \<le> x + x / 1000000" by linarith+
qed

lemma fl_grid:
  assumes "x = 0 \<or> c \<le> x" and "1 / 2 ^ 119 \<le> c"
  shows "fl x = 0 \<or> c / 2 \<le> fl x"
proof (cases "x = 0")
  case True
  then show ?thesis by simp
next
  case False
  then have c: "c \<le> x" using assms(1) by simp
  have "(1::real) / 2 ^ 120 \<le> 1 / 2 ^ 119" by simp
  then have "x = 0 \<or> 1 / 2 ^ 120 \<le> x" using c assms(2) by linarith
  then have "x - x / 1000000 \<le> fl x" by (rule fl_rel_nonneg)
  moreover have "0 \<le> c" using assms(2) by (rule order_trans [rotated]) simp
  ultimately have "c / 2 \<le> fl x" using c by argo
  then show ?thesis ..
qed

lemma fl_eval:
  assumes "- 1074 \<le> e" and "2 powi (e + 52) \<le> \<bar>x\<bar>" and "\<bar>x\<bar> < 2 powi (e + 53)"
    and "round_half_even (x / 2 powi e) = n" and "y = of_int n * 2 powi e"
  shows "fl x = y"
  using fl_value [OF assms(1,2,3,4)] assms(5) by simp

lemma fl_powers_of_two: "fl 1 = 1" "fl 4 = 4" "fl (1 / 2) = 1 / 2" "fl (1 / 4) = 1 / 4"
  "fl (3 / 4) = 3 / 4" "fl (1 / 16) = 1 / 16"
proof -
  show "fl 1 = 1" using fl_repr [of 1 0] by simp
  show "fl 4 = 4" using fl_repr [of 1 2] by simp
  show "fl (1 / 2) = 1 / 2" using fl_repr [of 1 "- 1"] by (simp add: power_int_minus)
  show "fl (1 / 4) = 1 / 4" using fl_repr [of 1 "- 2"] by (simp add: power_int_minus)
  show "fl (3 / 4) = 3 / 4" using fl_repr [of 3 "- 2"] by (simp add: power_int_minus)
  show "fl (1 / 16) = 1 / 16" using fl_repr [of 1 "- 4"] by (simp add: power_int_minus)
qed

lemma four_eta: "(2::real) powi (- 1073) = 4 * eta"
  unfolding eta_def using power_int_add [of "2::real" "- 1075" 2] by simp

section \<open>One coordinate of a moving projectile\<close>

text \<open>
  Each call of \<^verbatim>\<open>update\<close> multiplies the stored coordinate of the direction by the
  double nearest to 1/10 and rounds; the stored value shrinks by a factor of at most
  0.1001 a call until it is rounded to zero, and the position moves by at most the sum
  of the steps and of their rounding errors.
\<close>

lemma speed_bounds: "0 < PROJECTILE_SPEED_d"
  "PROJECTILE_SPEED_d * (1 + 1 / 2 ^ 53) \<le> 1001 / 10000"
  "PROJECTILE_SPEED_d \<le> 1001 / 10000"
  by (simp_all add: speed_value)

lemma dir_step_bound:
  "\<bar>fl (y * PROJECTILE_SPEED_d)\<bar> \<le> 1001 / 10000 * \<bar>y\<bar> + eta"
proof -
  let ?c = PROJECTILE_SPEED_d
  have e: "\<bar>fl (y * ?c) - y * ?c\<bar> \<le> \<bar>y * ?c\<bar> / 2 ^ 53 + eta" by (rule fl_err)
  have "\<bar>y * ?c\<bar> + \<bar>y * ?c\<bar> / 2 ^ 53 = \<bar>y\<bar> * (?c * (1 + 1 / 2 ^ 53))"
    using speed_bounds(1) by (simp add: abs_mult field_simps)
  also have "\<bar>y\<bar> * (?c * (1 + 1 / 2 ^ 53)) \<le> \<bar>y\<bar> * (1001 / 10000)"
    using speed_bounds(2) by (intro mult_left_mono) simp_all
  finally have "\<bar>y * ?c\<bar> + \<bar>y * ?c\<bar> / 2 ^ 53 \<le> 1001 / 10000 * \<bar>y\<bar>" by simp
  with e show ?thesis by linarith
qed

lemma dir_decay:
  "\<bar>snd (moved1 n (x, d))\<bar> \<le> (1001 / 10000) ^ n * \<bar>d\<bar> + 2 * eta"
proof (induction n)
  case 0
  then show ?case using eta_pos by simp
next
  case (Suc n)
  let ?D = "snd (moved1 n (x, d))"
  define A where "A = ((1001::real) / 10000) ^ n * \<bar>d\<bar>"
  have s: "snd (moved1 (Suc n) (x, d)) = fl (?D * PROJECTILE_SPEED_d)"
    by (simp add: Let_def)
  have 1: "\<bar>fl (?D * PROJECTILE_SPEED_d)\<bar> \<le> 1001 / 10000 * \<bar>?D\<bar> + eta"
    by (rule dir_step_bound)
  have 2: "\<bar>?D\<bar> \<le> A + 2 * eta" using Suc.IH by (simp add: A_def)
  have 3: "((1001::real) / 10000) ^ Suc n * \<bar>d\<bar> = 1001 / 10000 * A"
    by (simp add: A_def)
  show ?case
    unfolding s 3 using 1 2 eta_pos by linarith
qed

lemma dir_zero_step: "snd (moved1 n (x, d)) = 0 \<Longrightarrow> snd (moved1 (Suc n) (x, d)) = 0"
  by (simp add: Let_def)

lemma small_power: "((1001::real) / 10000) ^ 360 \<le> eta / 32"
proof -
  have "((1001::real) / 10000) ^ 360 \<le> (2 powi (- 3)) ^ 360"
    by (rule power_mono) (simp_all add: power_int_minus)
  also have "\<dots> = 2 powi (- 3 * int 360)"
    by (rule power_int_power')
  also have "- 3 * int 360 = - 1080" by simp
  finally show ?thesis by (simp only: pow2_1080)
qed

lemma dir_vanishes:
  assumes "\<bar>d\<bar> \<le> 2" and "361 \<le> n"
  shows "snd (moved1 n (x, d)) = 0"
proof -
  let ?D = "snd (moved1 360 (x, d))"
  have "((1001::real) / 10000) ^ 360 * \<bar>d\<bar> \<le> eta / 32 * 2"
    using small_power assms(1) eta_pos by (intro mult_mono) simp_all
  with dir_decay [of 360 x d] have D: "\<bar>?D\<bar> \<le> 3 * eta" using eta_pos by linarith
  have "\<bar>?D * PROJECTILE_SPEED_d\<bar> = \<bar>?D\<bar> * PROJECTILE_SPEED_d"
    using speed_bounds(1) by (simp add: abs_mult)
  also have "\<dots> \<le> 3 * eta * (1001 / 10000)"
    using D speed_bounds(1,3) by (intro mult_mono) simp_all
  also have "\<dots> < eta"
    using eta_pos by simp
  finally have "fl (?D * PROJECTILE_SPEED_d) = 0" by (rule fl_tiny)
  then have "snd (moved1 (Suc 360) (x, d)) = 0"
    by (simp only: moved1.simps Let_def snd_conv)
  moreover have "Suc 360 = 361" by simp
  ultimately have z: "snd (moved1 361 (x, d)) = 0" by (simp only:)
  have "snd (moved1 (361 + k) (x, d)) = 0" for k
  proof (induction k)
    case 0
    then show ?case using z by simp
  next
    case (Suc k)
    have "361 + Suc k = Suc (361 + k)" by simp
    then show ?case using dir_zero_step [OF Suc] by (simp only:)
  qed
  from this [of "n - 361"] assms(2) show ?thesis by simp
qed

lemma speed_tenth: "PROJECTILE_SPEED_d - 1 / 10 = 1 / (5 * 2 ^ 55)"
  by (simp add: speed_value)

lemma dir_step_close: "\<bar>fl (y * PROJECTILE_SPEED_d) - y / 10\<bar> \<le> \<bar>y\<bar> / 2 ^ 55 + eta"
proof -
  let ?c = PROJECTILE_SPEED_d
  have e: "\<bar>fl (y * ?c) - y * ?c\<bar> \<le> \<bar>y * ?c\<bar> / 2 ^ 53 + eta" by (rule fl_err)
  have "\<bar>y * ?c\<bar> = \<bar>y\<bar> * ?c" using speed_bounds(1) by (simp add: abs_mult)
  also have "\<dots> \<le> \<bar>y\<bar> * (1001 / 10000)"
    using speed_bounds(3) by (intro mult_left_mono) simp_all
  finally have a: "\<bar>y * ?c\<bar> \<le> \<bar>y\<bar> * (1001 / 10000)" .
  have "y * ?c - y / 10 = y * (?c - 1 / 10)" by (simp add: algebra_simps)
  then have "y * ?c - y / 10 = y * (1 / (5 * 2 ^ 55))"
    by (simp only: speed_tenth)
  then have "\<bar>y * ?c - y / 10\<bar> = \<bar>y * (1 / (5 * 2 ^ 55))\<bar>" by (rule arg_cong)
  then have b: "\<bar>y * ?c - y / 10\<bar> = \<bar>y\<bar> * (1 / (5 * 2 ^ 55))"
    by (simp add: abs_mult)
  have "\<bar>y\<bar> * (1001 / 10000) / 2 ^ 53 + \<bar>y\<bar> * (1 / (5 * 2 ^ 55)) \<le> \<bar>y\<bar> / 2 ^ 55"
    by (simp add: field_simps)
  moreover have "\<bar>y * ?c\<bar> / 2 ^ 53 \<le> \<bar>y\<bar> * (1001 / 10000) / 2 ^ 53"
    using a by (simp add: divide_right_mono)
  ultimately show ?thesis using e b by linarith
qed

lemma pos_is_double: "0 < n \<Longrightarrow> fl (fst (moved1 n xd)) = fst (moved1 n xd)"
  by (cases n) (simp_all add: Let_def)

lemma pos_bound_early:
  assumes x: "\<bar>x\<bar> \<le> 1000" and d: "\<bar>d\<bar> \<le> 2"
  shows "n \<le> 361 \<Longrightarrow>
         \<bar>fst (moved1 n (x, d)) - x\<bar>
           \<le> 1001 / 8999 * \<bar>d\<bar> - 1001 / 8999 * ((1001 / 10000) ^ n * \<bar>d\<bar>)
               + real n / 2 ^ 40"
proof (induction n)
  case 0
  then show ?case by simp
next
  case (Suc n)
  let ?X = "fst (moved1 n (x, d))"
  let ?D' = "snd (moved1 (Suc n) (x, d))"
  define Q where "Q = ((1001::real) / 10000) ^ n * \<bar>d\<bar>"
  have n: "real n \<le> 360" using Suc.prems by simp
  have Q: "0 \<le> Q" "Q \<le> \<bar>d\<bar>"
  proof -
    show "0 \<le> Q" by (simp add: Q_def)
    have "((1001::real) / 10000) ^ n \<le> 1" by (rule power_le_one) simp_all
    then have "((1001::real) / 10000) ^ n * \<bar>d\<bar> \<le> 1 * \<bar>d\<bar>"
      by (intro mult_right_mono) simp_all
    then show "Q \<le> \<bar>d\<bar>" by (simp add: Q_def)
  qed
  have ih: "\<bar>?X - x\<bar> \<le> 1001 / 8999 * \<bar>d\<bar> - 1001 / 8999 * Q + real n / 2 ^ 40"
    using Suc by (simp add: Q_def)
  have D': "\<bar>?D'\<bar> \<le> 1001 / 10000 * Q + 2 * eta"
    using dir_decay [of "Suc n" x d] by (simp add: Q_def)
  have small: "real n / 2 ^ 40 \<le> 1 / 2 ^ 31"
    using n by (simp add: field_simps)
  have t: "(1::real) / 2 ^ 31 \<le> 1 / 1000" by simp
  have X: "\<bar>?X\<bar> \<le> 1001" using ih x d Q small t by linarith
  have t': "(1::real) / 2 ^ 60 \<le> 1 / 1000" by simp
  have D1: "\<bar>?D'\<bar> \<le> 1" using D' Q d eta_small t' by linarith
  have s: "fst (moved1 (Suc n) (x, d)) = fl (?X + ?D')"
    by (simp add: Let_def)
  have "\<bar>fl (?X + ?D') - (?X + ?D')\<bar> \<le> \<bar>?X + ?D'\<bar> / 2 ^ 53 + eta"
    by (rule fl_err)
  moreover have "\<bar>?X + ?D'\<bar> / 2 ^ 53 \<le> 1002 / 2 ^ 53"
    using X D1 by (intro divide_right_mono) (linarith, simp)
  ultimately have e: "\<bar>fl (?X + ?D') - (?X + ?D')\<bar> \<le> 1002 / 2 ^ 53 + eta"
    by linarith
  have c: "(1002::real) / 2 ^ 53 + 3 / 2 ^ 60 \<le> 1 / 2 ^ 40" by simp
  have q: "((1001::real) / 10000) ^ Suc n * \<bar>d\<bar> = 1001 / 10000 * Q"
    by (simp add: Q_def)
  have r: "real (Suc n) / 2 ^ 40 = real n / 2 ^ 40 + 1 / 2 ^ 40"
    by (simp add: field_simps)
  show ?case
    unfolding s q r using e ih D' eta_small eta_pos c by linarith
qed

lemma pos_stationary:
  assumes "\<bar>d\<bar> \<le> 2"
  shows "fst (moved1 (361 + k) (x, d)) = fst (moved1 361 (x, d))"
proof (induction k)
  case 0
  then show ?case by simp
next
  case (Suc k)
  have z: "snd (moved1 (Suc (361 + k)) (x, d)) = 0"
    by (rule dir_vanishes [OF assms]) simp
  have "fst (moved1 (Suc (361 + k)) (x, d))
        = fl (fst (moved1 (361 + k) (x, d)) + snd (moved1 (Suc (361 + k)) (x, d)))"
    by (simp only: moved1.simps Let_def fst_conv snd_conv)
  also have "\<dots> = fl (fst (moved1 (361 + k) (x, d)))"
    by (simp only: z add_0_right)
  also have "\<dots> = fst (moved1 (361 + k) (x, d))"
    by (rule pos_is_double) simp
  finally have "fst (moved1 (Suc (361 + k)) (x, d)) = fst (moved1 361 (x, d))"
    using Suc by simp
  moreover have "361 + Suc k = Suc (361 + k)" by simp
  ultimately show ?case by (simp only:)
qed

lemma pos_bound:
  assumes x: "\<bar>x\<bar> \<le> 1000" and d: "\<bar>d\<bar> \<le> 2"
  shows "\<bar>fst (moved1 n (x, d)) - x\<bar> \<le> 1001 / 8999 * \<bar>d\<bar> + 1 / 2 ^ 31"
proof -
  have early: "\<bar>fst (moved1 m (x, d)) - x\<bar> \<le> 1001 / 8999 * \<bar>d\<bar> + 1 / 2 ^ 31"
    if m: "m \<le> 361" for m
  proof -
    have "0 \<le> ((1001::real) / 10000) ^ m * \<bar>d\<bar>" by simp
    moreover have "real m / 2 ^ 40 \<le> 1 / 2 ^ 31"
      using m by (simp add: field_simps)
    ultimately show ?thesis using pos_bound_early [OF x d m] by linarith
  qed
  show ?thesis
  proof (cases "n \<le> 361")
    case True
    then show ?thesis by (rule early)
  next
    case False
    then have "n = 361 + (n - 361)" by simp
    then have "fst (moved1 n (x, d)) = fst (moved1 361 (x, d))"
      using pos_stationary [OF d, of "n - 361" x] by simp
    then show ?thesis using early [of 361] by simp
  qed
qed

lemma moved1_zero: "moved1 n (0, 0) = (0, 0)"
  by (induction n) (simp_all add: Let_def)

section \<open>The two vectors of a moving projectile\<close>

lemma moved_components:
  "(vx (fst (moved n (p, d))), vx (snd (moved n (p, d)))) = moved1 n (vx p, vx d)"
  "(vy (fst (moved n (p, d))), vy (snd (moved n (p, d)))) = moved1 n (vy p, vy d)"
  "(vz (fst (moved n (p, d))), vz (snd (moved n (p, d)))) = moved1 n (vz p, vz d)"
proof (induction n)
  case 0
  {
    case 1 show ?case by simp
  next
    case 2 show ?case by simp
  next
    case 3 show ?case by simp
  }
next
  case (Suc n)
  {
    case 1
    show ?case using Suc(1) [symmetric]
      by (simp add: Let_def multiplyScalar_d_def add_vec_d_def)
  next
    case 2
    show ?case using Suc(2) [symmetric]
      by (simp add: Let_def multiplyScalar_d_def add_vec_d_def)
  next
    case 3
    show ?case using Suc(3) [symmetric]
      by (simp add: Let_def multiplyScalar_d_def add_vec_d_def)
  }
qed

lemma component_le_length:
  "\<bar>vx v\<bar> \<le> length_vec v" "\<bar>vy v\<bar> \<le> length_vec v" "\<bar>vz v\<bar> \<le> length_vec v"
proof -
  have a: "\<bar>a\<bar> \<le> sqrt (a * a + b)" if "0 \<le> b" for a b :: real
  proof -
    have "\<bar>a\<bar> = sqrt (a * a)" by simp
    also have "\<dots> \<le> sqrt (a * a + b)" using that by (intro real_sqrt_le_mono) simp
    finally show ?thesis .
  qed
  show "\<bar>vx v\<bar> \<le> length_vec v"
    unfolding length_vec_def using a [of "vy v * vy v + vz v * vz v" "vx v"]
    by (simp add: add.assoc)
  show "\<bar>vy v\<bar> \<le> length_vec v"
    unfolding length_vec_def using a [of "vx v * vx v + vz v * vz v" "vy v"]
    by (simp add: add.assoc add.commute add.left_commute)
  show "\<bar>vz v\<bar> \<le> length_vec v"
    unfolding length_vec_def using a [of "vx v * vx v + vy v * vy v" "vz v"]
    by (simp add: add.assoc add.commute add.left_commute)
qed

lemma length_vec_mono:
  assumes "\<bar>vx v\<bar> \<le> vx m" and "\<bar>vy v\<bar> \<le> vy m" and "\<bar>vz v\<bar> \<le> vz m"
  shows "length_vec v \<le> length_vec m"
proof -
  have sq: "a * a \<le> b * b" if "\<bar>a\<bar> \<le> b" for a b :: real
  proof -
    have "\<bar>a\<bar> * \<bar>a\<bar> \<le> b * b" using that by (intro mult_mono) simp_all
    then show ?thesis by simp
  qed
  show ?thesis
    unfolding length_vec_def
    using sq [OF assms(1)] sq [OF assms(2)] sq [OF assms(3)]
    by (intro real_sqrt_le_mono) linarith
qed

lemma length_vec_abs:
  "length_vec (Vector3 (abs (vx d)) (abs (vy d)) (abs (vz d))) = length_vec d"
  by (simp add: length_vec_def)

lemma length_vec_const: "0 \<le> t \<Longrightarrow> length_vec (Vector3 t t t) \<le> 2 * t"
proof -
  assume t: "0 \<le> t"
  have "t * t + t * t + t * t \<le> (2 * t) * (2 * t)" by (simp add: algebra_simps)
  then have "sqrt (t * t + t * t + t * t) \<le> sqrt ((2 * t) * (2 * t))"
    by (rule real_sqrt_le_mono)
  also have "\<dots> = 2 * t" using t real_sqrt_abs2 [of "2 * t"] by (simp only: abs_of_nonneg mult_nonneg_nonneg zero_le_numeral)
  finally show ?thesis by (simp add: length_vec_def)
qed

lemma displacement_norm:
  assumes k: "0 \<le> k" and t: "0 \<le> t"
    and "\<bar>vx w\<bar> \<le> k * \<bar>vx d\<bar> + t" and "\<bar>vy w\<bar> \<le> k * \<bar>vy d\<bar> + t"
    and "\<bar>vz w\<bar> \<le> k * \<bar>vz d\<bar> + t"
  shows "length_vec w \<le> k * length_vec d + 2 * t"
proof -
  let ?a = "Vector3 (abs (vx d)) (abs (vy d)) (abs (vz d))"
  let ?m = "add_vec (multiplyScalar ?a k) (Vector3 t t t)"
  have "length_vec w \<le> length_vec ?m"
    using assms(3,4,5)
    by (intro length_vec_mono) (simp_all add: add_vec_def multiplyScalar_def mult.commute)
  also have "\<dots> \<le> length_vec (multiplyScalar ?a k) + length_vec (Vector3 t t t)"
    by (rule length_vec_triangle)
  also have "length_vec (multiplyScalar ?a k) = k * length_vec d"
    using k by (simp only: length_vec_multiplyScalar length_vec_abs abs_of_nonneg)
  finally show ?thesis using length_vec_const [OF t] by linarith
qed

lemma moved_bounds:
  assumes p: "length_vec p \<le> 1000" and d: "length_vec d \<le> 2"
  shows "length_vec (sub_vec (fst (moved n (p, d))) p) \<le> 1001 / 8999 * length_vec d + 1 / 2 ^ 30"
proof -
  have pc: "\<bar>vx p\<bar> \<le> 1000" "\<bar>vy p\<bar> \<le> 1000" "\<bar>vz p\<bar> \<le> 1000"
    using component_le_length [of p] p by linarith+
  have dc: "\<bar>vx d\<bar> \<le> 2" "\<bar>vy d\<bar> \<le> 2" "\<bar>vz d\<bar> \<le> 2"
    using component_le_length [of d] d by linarith+
  have c: "vx (fst (moved n (p, d))) = fst (moved1 n (vx p, vx d))"
    "vy (fst (moved n (p, d))) = fst (moved1 n (vy p, vy d))"
    "vz (fst (moved n (p, d))) = fst (moved1 n (vz p, vz d))"
    using moved_components [of n p d, symmetric] by simp_all
  have "length_vec (sub_vec (fst (moved n (p, d))) p)
        \<le> 1001 / 8999 * length_vec d + 2 * (1 / 2 ^ 31)"
    using pos_bound [OF pc(1) dc(1), of n] pos_bound [OF pc(2) dc(2), of n]
      pos_bound [OF pc(3) dc(3), of n]
    by (intro displacement_norm) (simp_all add: sub_vec_def c)
  then show ?thesis by simp
qed

lemma length_d_near:
  assumes "length_vec v \<le> 995 / 100"
  shows "\<not> 10 < length_d v"
proof -
  define X where "X = vx v * vx v"
  define Y where "Y = vy v * vy v"
  define Z where "Z = vz v * vz v"
  have n: "0 \<le> X" "0 \<le> Y" "0 \<le> Z" by (simp_all add: X_def Y_def Z_def)
  have "sqrt ((995 / 100) * (995 / 100)) = \<bar>995 / 100 :: real\<bar>" by (rule real_sqrt_abs2)
  then have "sqrt (X + Y + Z) \<le> sqrt ((995 / 100) * (995 / 100))"
    using assms unfolding length_vec_def X_def Y_def Z_def by linarith
  then have s: "X + Y + Z \<le> 995 / 100 * (995 / 100)"
    by (simp only: real_sqrt_le_iff)
  have e: "eta \<le> 1 / 1000000"
    using eta_small by (rule order_trans) simp
  define sx where "sx = fl X"
  define sy where "sy = fl Y"
  define sz where "sz = fl Z"
  have px: "0 \<le> sx" "0 \<le> sy" "0 \<le> sz"
    unfolding sx_def sy_def sz_def using n by (simp_all add: fl_nonneg)
  have ux: "sx \<le> X + X / 1000000 + eta" "sy \<le> Y + Y / 1000000 + eta"
    "sz \<le> Z + Z / 1000000 + eta"
    unfolding sx_def sy_def sz_def by (rule fl_upper, rule n)+
  define t1 where "t1 = fl (sx + sy)"
  have p1: "0 \<le> t1" unfolding t1_def using px by (intro fl_nonneg) simp
  have u1: "t1 \<le> (sx + sy) + (sx + sy) / 1000000 + eta"
    unfolding t1_def using px by (intro fl_upper) simp
  define q where "q = fl (t1 + sz)"
  have pq: "0 \<le> q" unfolding q_def using p1 px by (intro fl_nonneg) simp
  have uq: "q \<le> (t1 + sz) + (t1 + sz) / 1000000 + eta"
    unfolding q_def using p1 px by (intro fl_upper) simp
  have b1: "sx + sy + sz \<le> 99003 / 1000"
    using s ux e by argo
  have b2: "t1 + sz \<le> 99004 / 1000"
    using b1 u1 e px by argo
  have "q \<le> 99005 / 1000"
    using b2 uq e by argo
  then have "q \<le> 996 / 100 * (996 / 100)" by simp
  then have "sqrt q \<le> sqrt (996 / 100 * (996 / 100))"
    by (simp only: real_sqrt_le_iff)
  moreover have "sqrt ((996 / 100) * (996 / 100)) = \<bar>996 / 100 :: real\<bar>" by (rule real_sqrt_abs2)
  ultimately have r: "sqrt q \<le> 996 / 100" by linarith
  have r0: "0 \<le> sqrt q" using pq by simp
  have "fl (sqrt q) \<le> sqrt q + sqrt q / 1000000 + eta"
    using r0 by (rule fl_upper)
  then have "fl (sqrt q) \<le> 10" using r r0 e by linarith
  then show ?thesis
    unfolding length_d_def q_def t1_def sx_def sy_def sz_def X_def Y_def Z_def by simp
qed

lemma add_sub_vec: "add_vec x (sub_vec p x) = p"
  by (cases p) (simp add: add_vec_def sub_vec_def)

lemma moved_near:
  assumes "length_vec x \<le> 98 / 10" and "length_vec d \<le> 1001 / 1000"
  shows "length_vec (sub_vec (fst (moved n (x, d))) x) \<le> 112 / 1000"
    and "length_vec (fst (moved n (x, d))) < 10"
    and "\<not> 10 < length_d (fst (moved n (x, d)))"
proof -
  have x: "length_vec x \<le> 1000" using assms(1) by simp
  have d: "length_vec d \<le> 2" using assms(2) by simp
  have "length_vec (sub_vec (fst (moved n (x, d))) x) \<le> 1001 / 8999 * length_vec d + 1 / 2 ^ 30"
    using x d by (rule moved_bounds)
  then show b: "length_vec (sub_vec (fst (moved n (x, d))) x) \<le> 112 / 1000"
    using assms(2) by simp
  have "length_vec (add_vec x (sub_vec (fst (moved n (x, d))) x))
        \<le> length_vec x + length_vec (sub_vec (fst (moved n (x, d))) x)"
    by (rule length_vec_triangle)
  then have l: "length_vec (fst (moved n (x, d))) \<le> 98 / 10 + 112 / 1000"
    using b assms(1) unfolding add_sub_vec by linarith
  then show "length_vec (fst (moved n (x, d))) < 10" by simp
  show "\<not> 10 < length_d (fst (moved n (x, d)))"
    using l by (intro length_d_near) simp
qed

lemma moved_far:
  assumes "length_vec x \<le> 1000" and "length_vec d \<le> 1001 / 1000"
  shows "length_vec (sub_vec (fst (moved n (x, d))) x) \<le> 112 / 1000"
proof -
  have d: "length_vec d \<le> 2" using assms(2) by simp
  have "length_vec (sub_vec (fst (moved n (x, d))) x) \<le> 1001 / 8999 * length_vec d + 1 / 2 ^ 30"
    using assms(1) d by (rule moved_bounds)
  then show ?thesis using assms(2) by simp
qed

lemma moved_direction:
  shows "length_vec (sub_vec (snd (moved (Suc n) (x, d))) (multiplyScalar (snd (moved n (x, d))) (1 / 10)))
           \<le> length_vec (snd (moved n (x, d))) / 2 ^ 55 + 2 * eta"
proof -
  let ?D = "snd (moved n (x, d))"
  let ?w = "sub_vec (snd (moved (Suc n) (x, d))) (multiplyScalar ?D (1 / 10))"
  have "length_vec ?w \<le> 1 / 2 ^ 55 * length_vec ?D + 2 * eta"
    using eta_pos dir_step_close [of "vx ?D"] dir_step_close [of "vy ?D"] dir_step_close [of "vz ?D"]
    by (intro displacement_norm)
      (simp_all add: sub_vec_def multiplyScalar_def multiplyScalar_d_def Let_def)
  then show ?thesis by simp
qed

lemma moved_decay:
  "length_vec (snd (moved n (x, d))) \<le> (1001 / 10000) ^ n * length_vec d + 4 * eta"
proof -
  let ?D = "snd (moved n (x, d))"
  have c: "vx ?D = snd (moved1 n (vx x, vx d))" "vy ?D = snd (moved1 n (vy x, vy d))"
    "vz ?D = snd (moved1 n (vz x, vz d))"
    using moved_components [of n x d, symmetric] by simp_all
  have "length_vec ?D \<le> (1001 / 10000) ^ n * length_vec d + 2 * (2 * eta)"
    using eta_pos dir_decay [of n "vx x" "vx d"] dir_decay [of n "vy x" "vy d"]
      dir_decay [of n "vz x" "vz d"]
    by (intro displacement_norm) (simp_all add: c)
  then show ?thesis by simp
qed

lemma moved_vanishes:
  assumes "length_vec d \<le> 2" and "361 \<le> n"
  shows "snd (moved n (x, d)) = Vector3 0 0 0"
proof -
  let ?D = "snd (moved n (x, d))"
  have dc: "\<bar>vx d\<bar> \<le> 2" "\<bar>vy d\<bar> \<le> 2" "\<bar>vz d\<bar> \<le> 2"
    using component_le_length [of d] assms(1) by linarith+
  have c: "vx ?D = snd (moved1 n (vx x, vx d))" "vy ?D = snd (moved1 n (vy x, vy d))"
    "vz ?D = snd (moved1 n (vz x, vz d))"
    using moved_components [of n x d, symmetric] by simp_all
  have "vx ?D = 0" "vy ?D = 0" "vz ?D = 0"
    unfolding c using dc assms(2) by (simp_all add: dir_vanishes)
  then show ?thesis by (cases ?D) simp
qed

lemma moved_axis:
  "moved n (Vector3 0 0 0, Vector3 1 0 0)
     = (Vector3 (fst (moved1 n (0, 1))) 0 0, Vector3 (snd (moved1 n (0, 1))) 0 0)"
proof -
  let ?m = "moved n (Vector3 0 0 0, Vector3 1 0 0)"
  have c: "vx (fst ?m) = fst (moved1 n (0, 1))" "vx (snd ?m) = snd (moved1 n (0, 1))"
    "vy (fst ?m) = 0" "vy (snd ?m) = 0" "vz (fst ?m) = 0" "vz (snd ?m) = 0"
    using moved_components [of n "Vector3 0 0 0" "Vector3 1 0 0", symmetric]
    by (simp_all add: moved1_zero)
  have "fst ?m = Vector3 (fst (moved1 n (0, 1))) 0 0"
    using c by (cases "fst ?m") simp
  moreover have "snd ?m = Vector3 (snd (moved1 n (0, 1))) 0 0"
    using c by (cases "snd ?m") simp
  ultimately show ?thesis by (simp add: prod_eq_iff)
qed

section \<open>The direction of a new projectile in double precision\<close>

text \<open>
  A random draw is a double between 0 and 1, so the draw less 0.5 is zero or at least
  \<open>2 ^ - 54\<close> in size: no square underflows in \<^verbatim>\<open>length\<close>, every operation of
  \<^verbatim>\<open>normalize\<close> has a relative error of at most \<open>2 ^ - 53\<close>, and the normalised
  direction is at most 1.001 long.
\<close>

lemma square_grid:
  assumes "a = 0 \<or> 1 / 2 ^ 54 \<le> \<bar>a :: real\<bar>" and "\<bar>a\<bar> \<le> 51 / 100"
  shows "a * a = 0 \<or> 1 / 2 ^ 108 \<le> a * a" and "0 \<le> a * a" and "a * a \<le> 2601 / 10000"
proof -
  show "0 \<le> a * a" by simp
  have "\<bar>a\<bar> * \<bar>a\<bar> \<le> 51 / 100 * (51 / 100)"
    using assms(2) by (intro mult_mono) simp_all
  then show "a * a \<le> 2601 / 10000" by simp
  show "a * a = 0 \<or> 1 / 2 ^ 108 \<le> a * a"
  proof (cases "a = 0")
    case True
    then show ?thesis by simp
  next
    case False
    then have "1 / 2 ^ 54 \<le> \<bar>a\<bar>" using assms(1) by simp
    then have "(1 / 2 ^ 54) * (1 / 2 ^ 54) \<le> \<bar>a\<bar> * \<bar>a\<bar>"
      by (intro mult_mono) simp_all
    then have "1 / 2 ^ 108 \<le> a * a" by simp
    then show ?thesis ..
  qed
qed

lemma sqrt_scale_le:
  assumes "0 \<le> k" and "k * k * s \<le> q"
  shows "k * sqrt s \<le> sqrt q"
proof -
  have "sqrt (k * k * s) = sqrt (k * k) * sqrt s" by (rule real_sqrt_mult)
  also have "sqrt (k * k) = k" using assms(1) by simp
  finally have "k * sqrt s = sqrt (k * k * s)" by simp
  also have "\<dots> \<le> sqrt q" using assms(2) by (rule real_sqrt_le_mono)
  finally show ?thesis .
qed

lemma component_scaled:
  assumes v: "v = 0 \<or> 1 / 2 ^ 54 \<le> \<bar>v :: real\<bar>"
    and i: "1 / 4 \<le> i" "i \<le> 10004 / 10000 * R"
  shows "\<bar>fl (v * i)\<bar> \<le> 1001 / 1000 * R * \<bar>v\<bar> + 0"
proof -
  have i0: "0 \<le> i" using i(1) by simp
  have "v * i = 0 \<or> 1 / 2 ^ 120 \<le> \<bar>v * i\<bar>"
  proof (cases "v = 0")
    case True
    then show ?thesis by simp
  next
    case False
    then have "1 / 2 ^ 54 \<le> \<bar>v\<bar>" using v by simp
    then have "(1 / 2 ^ 54) * (1 / 4) \<le> \<bar>v\<bar> * i"
      using i(1) by (intro mult_mono) simp_all
    moreover have "(1::real) / 2 ^ 120 \<le> (1 / 2 ^ 54) * (1 / 4)" by simp
    ultimately have "1 / 2 ^ 120 \<le> \<bar>v\<bar> * i" by linarith
    then show ?thesis using i0 by (simp add: abs_mult)
  qed
  then have "\<bar>fl (v * i) - v * i\<bar> \<le> \<bar>v * i\<bar> / 2 ^ 53" by (rule fl_rel)
  moreover have "\<bar>v * i\<bar> / 2 ^ 53 \<le> \<bar>v * i\<bar> / 1000000" by (simp add: divide_left_mono)
  ultimately have a: "\<bar>fl (v * i)\<bar> \<le> \<bar>v * i\<bar> + \<bar>v * i\<bar> / 1000000" by linarith
  define P where "P = \<bar>v\<bar> * R"
  have "\<bar>v\<bar> * i \<le> \<bar>v\<bar> * (10004 / 10000 * R)"
    using i(2) by (intro mult_left_mono) simp_all
  then have "\<bar>v * i\<bar> \<le> 10004 / 10000 * P"
    using i0 by (simp add: abs_mult P_def)
  moreover have "0 \<le> \<bar>v * i\<bar>" by simp
  ultimately have "\<bar>fl (v * i)\<bar> \<le> 1001 / 1000 * P" using a by argo
  moreover have "1001 / 1000 * P = 1001 / 1000 * R * \<bar>v\<bar>" by (simp add: P_def)
  ultimately show ?thesis by simp
qed

lemma normalize_d_zero: "normalize_d (Vector3 0 0 0) = Vector3 0 0 0"
  by (simp add: normalize_d_def length_d_def divideScalar_d_def multiplyScalar_d_def)

lemma normalize_d_length:
  assumes a: "a = 0 \<or> 1 / 2 ^ 54 \<le> \<bar>a :: real\<bar>" "\<bar>a\<bar> \<le> 51 / 100"
    and b: "b = 0 \<or> 1 / 2 ^ 54 \<le> \<bar>b\<bar>" "\<bar>b\<bar> \<le> 51 / 100"
    and c: "c = 0 \<or> 1 / 2 ^ 54 \<le> \<bar>c\<bar>" "\<bar>c\<bar> \<le> 51 / 100"
  shows "length_vec (normalize_d (Vector3 a b c)) \<le> 1001 / 1000"
proof -
  define X where "X = a * a"
  define Y where "Y = b * b"
  define Z where "Z = c * c"
  have X: "X = 0 \<or> 1 / 2 ^ 108 \<le> X" "0 \<le> X" "X \<le> 2601 / 10000"
    unfolding X_def using a by (rule square_grid)+
  have Y: "Y = 0 \<or> 1 / 2 ^ 108 \<le> Y" "0 \<le> Y" "Y \<le> 2601 / 10000"
    unfolding Y_def using b by (rule square_grid)+
  have Z: "Z = 0 \<or> 1 / 2 ^ 108 \<le> Z" "0 \<le> Z" "Z \<le> 2601 / 10000"
    unfolding Z_def using c by (rule square_grid)+
  have g: "(1::real) / 2 ^ 119 \<le> 1 / 2 ^ 108" "(1::real) / 2 ^ 119 \<le> 1 / 2 ^ 109"
    "(1::real) / 2 ^ 120 \<le> 1 / 2 ^ 108" "(1::real) / 2 ^ 120 \<le> 1 / 2 ^ 109"
    "(1::real) / 2 ^ 120 \<le> 1 / 2 ^ 110" "(1::real) / 2 ^ 108 / 2 = 1 / 2 ^ 109"
    "(1::real) / 2 ^ 109 / 2 = 1 / 2 ^ 110"
    by simp_all
  have X': "X = 0 \<or> 1 / 2 ^ 120 \<le> X" using X(1) g(3) by linarith
  have Y': "Y = 0 \<or> 1 / 2 ^ 120 \<le> Y" using Y(1) g(3) by linarith
  have Z': "Z = 0 \<or> 1 / 2 ^ 120 \<le> Z" using Z(1) g(3) by linarith
  define sx where "sx = fl X"
  define sy where "sy = fl Y"
  define sz where "sz = fl Z"
  have sx: "sx = 0 \<or> 1 / 2 ^ 109 \<le> sx" "0 \<le> sx" "X - X / 1000000 \<le> sx" "sx \<le> X + X / 1000000"
    unfolding sx_def using fl_grid [OF X(1) g(1)] fl_nonneg [OF X(2)] fl_rel_nonneg [OF X']
    by (simp_all add: g)
  have sy: "sy = 0 \<or> 1 / 2 ^ 109 \<le> sy" "0 \<le> sy" "Y - Y / 1000000 \<le> sy" "sy \<le> Y + Y / 1000000"
    unfolding sy_def using fl_grid [OF Y(1) g(1)] fl_nonneg [OF Y(2)] fl_rel_nonneg [OF Y']
    by (simp_all add: g)
  have sz: "sz = 0 \<or> 1 / 2 ^ 109 \<le> sz" "0 \<le> sz" "Z - Z / 1000000 \<le> sz" "sz \<le> Z + Z / 1000000"
    unfolding sz_def using fl_grid [OF Z(1) g(1)] fl_nonneg [OF Z(2)] fl_rel_nonneg [OF Z']
    by (simp_all add: g)
  have u: "sx + sy = 0 \<or> 1 / 2 ^ 109 \<le> sx + sy" "0 \<le> sx + sy"
    using sx(1,2) sy(1,2) by linarith+
  have u': "sx + sy = 0 \<or> 1 / 2 ^ 120 \<le> sx + sy" using u(1) g(4) by linarith
  define t1 where "t1 = fl (sx + sy)"
  have t1: "t1 = 0 \<or> 1 / 2 ^ 110 \<le> t1" "0 \<le> t1"
    "(sx + sy) - (sx + sy) / 1000000 \<le> t1" "t1 \<le> (sx + sy) + (sx + sy) / 1000000"
    unfolding t1_def using fl_grid [OF u(1) g(2)] fl_nonneg [OF u(2)] fl_rel_nonneg [OF u']
    by (simp_all add: g)
  have w: "t1 + sz = 0 \<or> 1 / 2 ^ 120 \<le> t1 + sz" "0 \<le> t1 + sz"
    using t1(1,2) sz(1,2) g(4,5) by linarith+
  define q where "q = fl (t1 + sz)"
  have q: "(t1 + sz) - (t1 + sz) / 1000000 \<le> q" "q \<le> (t1 + sz) + (t1 + sz) / 1000000"
    unfolding q_def using fl_rel_nonneg [OF w(1)] by simp_all
  define S where "S = X + Y + Z"
  have S0: "0 \<le> S" unfolding S_def using X(2) Y(2) Z(2) by simp
  have lo: "9999 / 10000 * (9999 / 10000) * S \<le> q"
    unfolding S_def using q(1) t1(3) sx(3) sy(3) sz(3) X(2) Y(2) Z(2) sx(2) sy(2) sz(2) t1(2)
    by argo
  have hi: "q \<le> 1"
    using q(2) t1(4) sx(4) sy(4) sz(4) X(2,3) Y(2,3) Z(2,3) sx(2) sy(2) sz(2) t1(2)
    by argo
  have len: "length_vec (Vector3 a b c) = sqrt S"
    by (simp add: length_vec_def S_def X_def Y_def Z_def)
  have ld: "length_d (Vector3 a b c) = fl (sqrt q)"
    by (simp add: length_d_def q_def t1_def sx_def sy_def sz_def X_def Y_def Z_def)
  show ?thesis
  proof (cases "S = 0")
    case True
    then have "X = 0" "Y = 0" "Z = 0" using X(2) Y(2) Z(2) unfolding S_def by linarith+
    then have "a = 0" "b = 0" "c = 0" by (simp_all add: X_def Y_def Z_def)
    then show ?thesis by (simp add: normalize_d_zero length_vec_def)
  next
    case False
    have S: "1 / 2 ^ 108 \<le> S"
      using False X(1,2) Y(1,2) Z(1,2) unfolding S_def by linarith
    define r where "r = sqrt S"
    have r: "1 / 2 ^ 54 \<le> r"
      unfolding r_def using S by (intro real_le_rsqrt) (simp add: power2_eq_square)
    have rp: "0 < r" using r by (rule less_le_trans [rotated]) simp
    have sq: "9999 / 10000 * r \<le> sqrt q"
      unfolding r_def using lo by (intro sqrt_scale_le) simp_all
    have sq1: "sqrt q \<le> 1" using hi by simp
    have "(1::real) / 2 ^ 120 \<le> 9999 / 10000 * (1 / 2 ^ 54)" by simp
    then have "1 / 2 ^ 120 \<le> sqrt q" using sq r by argo
    then have n: "sqrt q = 0 \<or> 1 / 2 ^ 120 \<le> sqrt q" ..
    define L where "L = fl (sqrt q)"
    have L: "9998 / 10000 * r \<le> L" "L \<le> 2"
      unfolding L_def using fl_rel_nonneg [OF n] sq sq1 rp by argo+
    have Lp: "0 < L" using L(1) rp by argo
    then have L0: "L \<noteq> 0" by simp
    define R where "R = 1 / r"
    have Rp: "0 \<le> R" unfolding R_def using rp by simp
    define J where "J = 1 / L"
    have "J \<le> 1 / (9998 / 10000 * r)"
      unfolding J_def using L(1) rp by (intro divide_left_mono) simp_all
    also have "\<dots> = 10000 / 9998 * R" by (simp add: R_def)
    finally have iL: "J \<le> 10000 / 9998 * R" .
    have h1: "1 / 2 \<le> J"
      unfolding J_def using L(2) Lp by (simp add: field_simps)
    have "(1::real) / 2 ^ 120 \<le> 1 / 2" by simp
    then have "1 / 2 ^ 120 \<le> J" using h1 by (rule order_trans)
    then have h2: "J = 0 \<or> 1 / 2 ^ 120 \<le> J" ..
    define i where "i = fl J"
    have fj: "J - J / 1000000 \<le> i" "i \<le> J + J / 1000000"
      unfolding i_def using h2 by (rule fl_rel_nonneg)+
    have i: "1 / 4 \<le> i" "i \<le> 10004 / 10000 * R"
      using fj h1 iL Rp by argo+
    have nd: "normalize_d (Vector3 a b c) = Vector3 (fl (a * i)) (fl (b * i)) (fl (c * i))"
      using L0 by (simp add: normalize_d_def ld L_def [symmetric] divideScalar_d_def
          multiplyScalar_d_def i_def J_def)
    have "0 \<le> 1001 / 1000 * R" using Rp by simp
    then have "length_vec (normalize_d (Vector3 a b c))
          \<le> 1001 / 1000 * R * length_vec (Vector3 a b c) + 2 * 0"
      unfolding nd
      using component_scaled [OF a(1) i] component_scaled [OF b(1) i] component_scaled [OF c(1) i]
      by (intro displacement_norm) simp_all
    also have "\<dots> = 1001 / 1000" unfolding len r_def [symmetric] R_def using rp by simp
    finally show ?thesis .
  qed
qed

lemma double_grid:
  assumes "fl r = r" and "1 / 4 \<le> r"
  shows "\<exists>N. r = of_int N / 2 ^ 54"
proof -
  have r0: "r \<noteq> 0" using assms(2) by auto
  have "(2::real) powi (- 2) = 1 / 4" by (simp add: power_int_minus)
  then have "(2::real) powi (- 2) < 2 powi (\<lfloor>log 2 \<bar>r\<bar>\<rfloor> + 1)"
    using floor_log2_bounds(2) [OF r0] assms(2) by linarith
  then have "- 2 < \<lfloor>log 2 \<bar>r\<bar>\<rfloor> + 1" by (rule pow2_less_imp)
  then have e: "- 54 \<le> exponent_d r" unfolding exponent_d_log [OF r0] by linarith
  define e where "e = exponent_d r"
  define n where "n = round_half_even (r / 2 powi e)"
  have r: "r = of_int n * 2 powi e"
    using assms(1) unfolding fl_def n_def e_def by simp
  have k: "0 \<le> e + 54" using e unfolding e_def by simp
  have "(2::real) powi e = 2 powi (e + 54) * 2 powi (- 54)"
    using power_int_add [of "2::real" "e + 54" "- 54"] by simp
  also have "(2::real) powi (e + 54) = 2 ^ nat (e + 54)"
    using k by (simp add: power_int_def)
  also have "(2::real) powi (- 54) = 1 / 2 ^ 54"
    by (simp add: power_int_minus field_simps)
  finally have "r = of_int (n * 2 ^ nat (e + 54)) / 2 ^ 54"
    unfolding r by simp
  then show ?thesis ..
qed

lemma random_offset:
  assumes "fl r = r" and "0 \<le> r" and "r < 1"
  shows "fl (r - 1 / 2) = 0 \<or> 1 / 2 ^ 54 \<le> \<bar>fl (r - 1 / 2)\<bar>"
    and "\<bar>fl (r - 1 / 2)\<bar> \<le> 51 / 100"
proof -
  have e: "eta \<le> 1 / 1000" using eta_small by (rule order_trans) simp
  define A where "A = \<bar>r - 1 / 2\<bar>"
  have A: "0 \<le> A" "A \<le> 1 / 2" "\<bar>r - 1 / 2\<bar> = A"
    unfolding A_def using assms(2,3) by linarith+
  have "\<bar>fl (r - 1 / 2) - (r - 1 / 2)\<bar> \<le> A / 2 ^ 53 + eta"
    unfolding A_def by (rule fl_err)
  moreover have "A / 2 ^ 53 \<le> A / 1000" using A(1) by (simp add: divide_left_mono)
  ultimately show "\<bar>fl (r - 1 / 2)\<bar> \<le> 51 / 100"
    using A e by linarith
  show "fl (r - 1 / 2) = 0 \<or> 1 / 2 ^ 54 \<le> \<bar>fl (r - 1 / 2)\<bar>"
  proof (cases "1 / 4 \<le> r \<and> r \<le> 3 / 4")
    case True
    then obtain N where N: "r = of_int N / 2 ^ 54"
      using double_grid [OF assms(1)] by blast
    define M where "M = N - 2 ^ 53"
    have p: "(2::real) powi (- 54) = 1 / 2 ^ 54"
      by (simp add: power_int_minus field_simps)
    have x: "r - 1 / 2 = of_int M * 2 powi (- 54)"
      unfolding p M_def N by (simp add: field_simps)
    have "\<bar>r - 1 / 2\<bar> \<le> 1 / 4" using True by linarith
    then have "\<bar>of_int M * (1 / 2 ^ 54)\<bar> \<le> (1::real) / 4"
      unfolding x p .
    then have "\<bar>real_of_int M\<bar> \<le> 2 ^ 52"
      by (simp add: abs_mult field_simps)
    then have "\<bar>real_of_int M\<bar> < 2 ^ 53" by (rule le_less_trans) simp
    then have m: "\<bar>M\<bar> < 2 ^ 53"
      by (metis of_int_abs of_int_less_numeral_power_cancel_iff)
    have f: "fl (r - 1 / 2) = of_int M * 2 powi (- 54)"
      unfolding x using m by (rule fl_repr) simp
    show ?thesis
    proof (cases "M = 0")
      case True
      then show ?thesis unfolding f by simp
    next
      case False
      then have "1 \<le> \<bar>M\<bar>" by simp
      then have "1 \<le> \<bar>real_of_int M\<bar>" by (metis of_int_abs of_int_1_le_iff)
      then have "1 * (1 / 2 ^ 54) \<le> \<bar>real_of_int M\<bar> * (1 / 2 ^ 54)"
        by (intro mult_right_mono) simp_all
      then have "1 / 2 ^ 54 \<le> \<bar>fl (r - 1 / 2)\<bar>"
        unfolding f p by (simp add: abs_mult)
      then show ?thesis ..
    qed
  next
    case False
    then have a: "1 / 4 \<le> \<bar>r - 1 / 2\<bar>" by linarith
    have "(2::real) powi (- 1022) \<le> 2 powi (- 2)" by (rule pow2_mono) simp
    also have "(2::real) powi (- 2) = 1 / 4" by (simp add: power_int_minus)
    finally have "2 powi (- 1022) \<le> \<bar>r - 1 / 2\<bar>" using a by linarith
    then have "\<bar>fl (r - 1 / 2) - (r - 1 / 2)\<bar> \<le> \<bar>r - 1 / 2\<bar> / 2 ^ 53"
      by (rule fl_error_normal)
    then have "\<bar>fl (r - 1 / 2) - (r - 1 / 2)\<bar> \<le> A / 2 ^ 53" unfolding A_def .
    moreover have "A / 2 ^ 53 \<le> A / 1000" using A(1) by (simp add: divide_left_mono)
    ultimately have "1 / 8 \<le> \<bar>fl (r - 1 / 2)\<bar>" using a A by linarith
    moreover have "(1::real) / 2 ^ 54 \<le> 1 / 8" by simp
    ultimately have "1 / 2 ^ 54 \<le> \<bar>fl (r - 1 / 2)\<bar>" by linarith
    then show ?thesis ..
  qed
qed

lemma spawn_direction_length:
  assumes "fl r1 = r1" "0 \<le> r1" "r1 < 1" "fl r2 = r2" "0 \<le> r2" "r2 < 1"
    "fl r3 = r3" "0 \<le> r3" "r3 < 1"
  shows "length_vec (normalize_d (Vector3 (fl (r1 - 0.5)) (fl (r2 - 0.5)) (fl (r3 - 0.5))))
           \<le> 1001 / 1000"
proof -
  have h: "r1 - 0.5 = r1 - 1 / 2" "r2 - 0.5 = r2 - 1 / 2" "r3 - 0.5 = r3 - 1 / 2" by simp_all
  show ?thesis
    unfolding h
    using random_offset [OF assms(1,2,3)] random_offset [OF assms(4,5,6)]
      random_offset [OF assms(7,8,9)]
    by (intro normalize_d_length)
qed

lemma normalize_d_quarter: "normalize_d (Vector3 (1 / 4) 0 0) = Vector3 1 0 0"
proof -
  have s: "sqrt (1 / 16) = 1 / 4"
    by (rule real_sqrt_unique) (simp_all add: power2_eq_square)
  have l: "length_d (Vector3 (1 / 4) 0 0) = 1 / 4"
    by (simp add: length_d_def fl_powers_of_two s)
  show ?thesis
    by (simp add: normalize_d_def l divideScalar_d_def multiplyScalar_d_def fl_powers_of_two)
qed

section \<open>The frame loop in double precision\<close>

text \<open>
  The facts of the first model that do not depend on the arithmetic, for the second
  model: what a handler leaves alone, well-formedness, and the outcome of a frame for
  one projectile of the collection.
\<close>

lemma update_fields_d [simp]:
  "letterN (snd (update_d p s)) = letterN s"
  "number1 (snd (update_d p s)) = number1 s"
  "fresh (snd (update_d p s)) = fresh s"
  "projectiles (snd (update_d p s)) = projectiles s"
  "alphabet_ambientIntensity (snd (update_d p s)) = alphabet_ambientIntensity s"
  "digit_ambientIntensity (snd (update_d p s)) = digit_ambientIntensity s"
  "mesh (fst (update_d p s)) = mesh p"
  "direction (fst (update_d p s)) = direction p"
  by (simp_all add: update_d_def destroy_def Let_def)

lemma proximity_fields_d [simp]:
  "letterN (proximity_d p s) = letterN s"
  "number1 (proximity_d p s) = number1 s"
  "fresh (proximity_d p s) = fresh s"
  "heap (proximity_d p s) = heap s"
  "scene (proximity_d p s) = scene s"
  "projectiles (proximity_d p s) = projectiles s"
  by (simp_all add: proximity_d_def Let_def split: option.splits)

lemma forEach_Cons_d:
  "forEach_d (p # ps) s =
     (fst (update_d p s) # fst (forEach_d ps (proximity_d (fst (update_d p s)) (snd (update_d p s)))),
      snd (forEach_d ps (proximity_d (fst (update_d p s)) (snd (update_d p s)))))"
  by (simp add: Let_def split: prod.splits)

lemma forEach_fields_d [simp]:
  "letterN (snd (forEach_d ps s)) = letterN s"
  "number1 (snd (forEach_d ps s)) = number1 s"
  "fresh (snd (forEach_d ps s)) = fresh s"
  "projectiles (snd (forEach_d ps s)) = projectiles s"
  by (induction ps arbitrary: s; simp add: forEach_Cons_d del: forEach_d.simps(2))+

lemma forEach_meshes_d [simp]:
  "map mesh (fst (forEach_d ps s)) = map mesh ps"
  "map direction (fst (forEach_d ps s)) = map direction ps"
  by (induction ps arbitrary: s; simp add: forEach_Cons_d del: forEach_d.simps(2))+

lemma forEach_length_d [simp]: "length (fst (forEach_d ps s)) = length ps"
  by (induction ps arbitrary: s; simp add: forEach_Cons_d del: forEach_d.simps(2))

lemma update_scene_d: "set (scene (snd (update_d p s))) \<subseteq> set (scene s)"
  using set_remove1_subset [of "mesh p" "scene s"]
  by (simp add: update_d_def destroy_def Let_def scene_remove_def)

lemma update_scene_distinct_d: "distinct (scene s) \<Longrightarrow> distinct (scene (snd (update_d p s)))"
  by (simp add: update_d_def destroy_def Let_def scene_remove_def)

lemma forEach_scene_d: "set (scene (snd (forEach_d ps s))) \<subseteq> set (scene s)"
proof (induction ps arbitrary: s)
  case Nil
  then show ?case by simp
next
  case (Cons p ps)
  have "set (scene (snd (forEach_d (p # ps) s)))
        \<subseteq> set (scene (proximity_d (fst (update_d p s)) (snd (update_d p s))))"
    unfolding forEach_Cons_d snd_conv by (rule Cons.IH)
  also have "\<dots> \<subseteq> set (scene s)"
    using update_scene_d by simp
  finally show ?case .
qed

lemma forEach_scene_distinct_d: "distinct (scene s) \<Longrightarrow> distinct (scene (snd (forEach_d ps s)))"
  by (induction ps arbitrary: s) (simp_all add: forEach_Cons_d update_scene_distinct_d del: forEach_d.simps(2))

lemma updateProjectiles_unfold_d:
  "updateProjectiles_d s =
     (snd (forEach_d (filter alive (projectiles s)) s))
       \<lparr>projectiles := fst (forEach_d (filter alive (projectiles s)) s)\<rparr>"
  by (simp add: updateProjectiles_d_def split: prod.splits)

lemma wf_updateProjectiles_d: "well_formed s \<Longrightarrow> well_formed (updateProjectiles_d s)"
proof -
  assume w: "well_formed s"
  let ?ps = "filter alive (projectiles s)"
  let ?s' = "updateProjectiles_d s"
  have refs: "projectile_refs (projectiles ?s') = projectile_refs ?ps"
    by (rule projectile_refs_cong) (simp_all add: updateProjectiles_unfold_d)
  have fx: "fixed_refs ?s' = fixed_refs s"
    by (simp add: fixed_refs_def updateProjectiles_unfold_d)
  have fr: "fresh ?s' = fresh s"
    by (simp add: updateProjectiles_unfold_d)
  have sc: "set (scene ?s') \<subseteq> set (scene s)" "distinct (scene ?s')"
    using w forEach_scene_d [of ?ps s] forEach_scene_distinct_d [of s ?ps]
    by (simp_all add: updateProjectiles_unfold_d well_formed_def)
  have d: "distinct (fixed_refs s @ projectile_refs ?ps)"
    using w distinct_projectile_refs_filter [of "fixed_refs s" "projectiles s" alive]
    by (simp add: well_formed_def)
  have b: "list_all (\<lambda>r. r < fresh s) (fixed_refs s @ projectile_refs ?ps)"
    using w set_projectile_refs_filter [of alive "projectiles s"]
    by (auto simp: well_formed_def list_all_iff)
  show ?thesis
    using d b sc w unfolding well_formed_def refs fx fr
    by (auto simp: list_all_iff)
qed

lemma keydown_space_d:
  "keydown_d '' '' r1 r2 r3 s =
     s\<lparr>heap := (heap s)(fresh s := heap s cubeMesh,
                        Suc (Suc (fresh s)) := heap s cubeMesh,
                        Suc (fresh s) := normalize_d (Vector3 (fl (r1 - 0.5)) (fl (r2 - 0.5)) (fl (r3 - 0.5)))),
       fresh := Suc (Suc (Suc (fresh s))),
       scene := scene_add (Suc (Suc (fresh s))) (scene s),
       projectiles := projectiles s
          @ [\<lparr>mesh = Suc (Suc (fresh s)), direction = Suc (fresh s), alive = True\<rparr>]\<rparr>"
  by (simp add: keydown_d_def clone_def new_Vector3_def new_Projectile_d_def Let_def)

lemma keydown_fields_d:
  "letterN (keydown_d key r1 r2 r3 s) = letterN s"
  "number1 (keydown_d key r1 r2 r3 s) = number1 s"
  "alphabet_ambientIntensity (keydown_d key r1 r2 r3 s) = alphabet_ambientIntensity s"
  "digit_ambientIntensity (keydown_d key r1 r2 r3 s) = digit_ambientIntensity s"
  by (simp_all add: keydown_d_def clone_def new_Vector3_def new_Projectile_d_def Let_def)

lemma keydown_move_fields_d:
  "key \<noteq> '' '' \<Longrightarrow> projectiles (keydown_d key r1 r2 r3 s) = projectiles s"
  "key \<noteq> '' '' \<Longrightarrow> fresh (keydown_d key r1 r2 r3 s) = fresh s"
  "key \<noteq> '' '' \<Longrightarrow> scene (keydown_d key r1 r2 r3 s) = scene s"
  by (simp_all add: keydown_d_def)

lemma wf_keydown_d: "well_formed s \<Longrightarrow> well_formed (keydown_d key r1 r2 r3 s)"
proof (cases "key = '' ''")
  case False
  assume "well_formed s"
  then show ?thesis
    using False by (simp add: well_formed_def fixed_refs_def keydown_fields_d keydown_move_fields_d)
next
  case True
  assume w: "well_formed s"
  let ?f = "fresh s"
  let ?rs = "fixed_refs s @ projectile_refs (projectiles s)"
  have lt: "list_all (\<lambda>r. r < ?f) ?rs" "list_all (\<lambda>r. r < ?f) (scene s)"
    and dis: "distinct ?rs" "distinct (scene s)"
    using w by (simp_all add: well_formed_def)
  have fx: "fixed_refs (keydown_d '' '' r1 r2 r3 s) = fixed_refs s"
    by (simp add: fixed_refs_def keydown_fields_d)
  have n1: "Suc (Suc ?f) \<notin> set (scene s)"
    by (rule below_notin [OF lt(2)]) simp
  have n2: "Suc ?f \<notin> set ?rs"
    by (rule below_notin [OF lt(1)]) simp
  have n3: "Suc (Suc ?f) \<notin> set ?rs"
    by (rule below_notin [OF lt(1)]) simp
  have sc: "scene (keydown_d '' '' r1 r2 r3 s) = scene s @ [Suc (Suc ?f)]"
    using n1 by (simp add: keydown_space_d scene_add_def remove1_idem)
  have ps: "projectile_refs (projectiles (keydown_d '' '' r1 r2 r3 s))
            = projectile_refs (projectiles s) @ [Suc (Suc ?f), Suc ?f]"
    by (simp add: keydown_space_d)
  have fr: "fresh (keydown_d '' '' r1 r2 r3 s) = Suc (Suc (Suc ?f))"
    by (simp add: keydown_space_d)
  have m1: "list_all (\<lambda>r. r < Suc (Suc (Suc ?f))) ?rs"
    by (rule below_mono [OF lt(1)]) simp
  have m2: "list_all (\<lambda>r. r < Suc (Suc (Suc ?f))) (scene s)"
    by (rule below_mono [OF lt(2)]) simp
  have "well_formed (keydown_d '' '' r1 r2 r3 s)"
    unfolding well_formed_def fx sc ps fr
    using dis n1 n2 n3 m1 m2 by simp
  then show ?thesis using True by simp
qed

lemma update_heap_other_d:
  "r \<noteq> mesh p \<Longrightarrow> r \<noteq> direction p \<Longrightarrow> heap (snd (update_d p s)) r = heap s r"
  by (simp add: update_d_def destroy_def Let_def)

lemma update_scene_other_d:
  "m \<noteq> mesh p \<Longrightarrow> m \<in> set (scene (snd (update_d p s))) \<longleftrightarrow> m \<in> set (scene s)"
  by (simp add: update_d_def destroy_def Let_def scene_remove_def)

lemma forEach_heap_other_d:
  "r \<notin> set (projectile_refs ps) \<Longrightarrow> heap (snd (forEach_d ps s)) r = heap s r"
proof (induction ps arbitrary: s)
  case Nil
  then show ?case by simp
next
  case (Cons p ps)
  have r: "r \<noteq> mesh p" "r \<noteq> direction p" "r \<notin> set (projectile_refs ps)"
    using Cons.prems by simp_all
  show ?case
    using Cons.IH [OF r(3)] update_heap_other_d [OF r(1) r(2)]
    by (simp add: forEach_Cons_d del: forEach_d.simps(2))
qed

lemma forEach_scene_other_d:
  "m \<notin> mesh ` set ps \<Longrightarrow> m \<in> set (scene (snd (forEach_d ps s))) \<longleftrightarrow> m \<in> set (scene s)"
proof (induction ps arbitrary: s)
  case Nil
  then show ?case by simp
next
  case (Cons p ps)
  have m: "m \<noteq> mesh p" "m \<notin> mesh ` set ps"
    using Cons.prems by simp_all
  show ?case
    using Cons.IH [OF m(2)] update_scene_other_d [OF m(1)]
    by (simp add: forEach_Cons_d del: forEach_d.simps(2))
qed

lemma forEach_mesh_set_d: "mesh ` set (fst (forEach_d ps s)) = mesh ` set ps"
  using arg_cong [OF forEach_meshes_d(1) [of ps s], of set] by (simp del: forEach_meshes_d)

lemma update_own_d:
  assumes "mesh p \<noteq> direction p"
  shows "heap (snd (update_d p s)) (direction p)
           = multiplyScalar_d (heap s (direction p)) PROJECTILE_SPEED_d"
    and "heap (snd (update_d p s)) (mesh p)
           = add_vec_d (heap s (mesh p)) (multiplyScalar_d (heap s (direction p)) PROJECTILE_SPEED_d)"
    and "alive (fst (update_d p s))
           \<longleftrightarrow> alive p \<and> \<not> 10 < length_d (heap (snd (update_d p s)) (mesh p))"
    and "distinct (scene s) \<Longrightarrow> mesh p \<in> set (scene (snd (update_d p s)))
           \<longleftrightarrow> mesh p \<in> set (scene s) \<and> \<not> 10 < length_d (heap (snd (update_d p s)) (mesh p))"
  using assms by (simp_all add: update_d_def destroy_def Let_def scene_remove_def)

lemma forEach_member_d:
  assumes "distinct (projectile_refs ps)" and "p \<in> set ps" and "distinct (scene s)"
  shows "heap (snd (forEach_d ps s)) (direction p)
           = multiplyScalar_d (heap s (direction p)) PROJECTILE_SPEED_d \<and>
         heap (snd (forEach_d ps s)) (mesh p)
           = add_vec_d (heap s (mesh p)) (multiplyScalar_d (heap s (direction p)) PROJECTILE_SPEED_d) \<and>
         (mesh p \<in> set (scene (snd (forEach_d ps s)))
           \<longleftrightarrow> mesh p \<in> set (scene s) \<and> \<not> 10 < length_d (heap (snd (forEach_d ps s)) (mesh p))) \<and>
         (\<forall>q \<in> set (fst (forEach_d ps s)). mesh q = mesh p \<longrightarrow>
            direction q = direction p \<and>
            (alive q \<longleftrightarrow> alive p \<and> \<not> 10 < length_d (heap (snd (forEach_d ps s)) (mesh p)))) \<and>
         (\<exists>q \<in> set (fst (forEach_d ps s)). mesh q = mesh p)"
  using assms
proof (induction ps arbitrary: s)
  case Nil
  then show ?case by simp
next
  case (Cons a ps)
  let ?a' = "fst (update_d a s)"
  let ?s1 = "snd (update_d a s)"
  let ?s2 = "proximity_d ?a' ?s1"
  let ?s3 = "snd (forEach_d ps ?s2)"
  have fe: "fst (forEach_d (a # ps) s) = ?a' # fst (forEach_d ps ?s2)"
    "snd (forEach_d (a # ps) s) = ?s3"
    by (simp_all add: forEach_Cons_d del: forEach_d.simps(2))
  have da: "mesh a \<noteq> direction a" "mesh a \<notin> set (projectile_refs ps)"
    "direction a \<notin> set (projectile_refs ps)" "distinct (projectile_refs ps)"
    using Cons.prems(1) by auto
  have ds2: "distinct (scene ?s2)"
    using Cons.prems(3) by (simp add: update_scene_distinct_d)
  show ?case
  proof (cases "p = a")
    case True
    have h1: "heap ?s3 (direction a) = heap ?s1 (direction a)"
      "heap ?s3 (mesh a) = heap ?s1 (mesh a)"
      using forEach_heap_other_d [OF da(3), of ?s2] forEach_heap_other_d [OF da(2), of ?s2]
      by simp_all
    have ma: "mesh a \<notin> mesh ` set ps"
      using da(2) by (simp add: set_projectile_refs)
    have sc: "mesh a \<in> set (scene ?s3) \<longleftrightarrow> mesh a \<in> set (scene ?s1)"
      using forEach_scene_other_d [OF ma, of ?s2] by simp
    have nm: "\<forall>q \<in> set (fst (forEach_d ps ?s2)). mesh q \<noteq> mesh a"
    proof
      fix q assume "q \<in> set (fst (forEach_d ps ?s2))"
      then have "mesh q \<in> mesh ` set (fst (forEach_d ps ?s2))" by simp
      then have "mesh q \<in> mesh ` set ps" by (simp only: forEach_mesh_set_d)
      with ma show "mesh q \<noteq> mesh a" by auto
    qed
    show ?thesis
      unfolding True fe
      using update_own_d [OF da(1), of s] Cons.prems(3) h1 sc nm by simp
  next
    case False
    then have p: "p \<in> set ps" using Cons.prems(2) by simp
    then have pr: "mesh p \<in> set (projectile_refs ps)" "direction p \<in> set (projectile_refs ps)"
      by (auto simp: set_projectile_refs)
    have ne: "mesh p \<noteq> mesh a" "mesh p \<noteq> direction a" "direction p \<noteq> mesh a"
      "direction p \<noteq> direction a"
      using pr da(2) da(3) by auto
    have h2: "heap ?s1 (direction p) = heap s (direction p)"
      "heap ?s1 (mesh p) = heap s (mesh p)"
      using update_heap_other_d [OF ne(3) ne(4), of s] update_heap_other_d [OF ne(1) ne(2), of s]
      by simp_all
    have sc2: "mesh p \<in> set (scene ?s1) \<longleftrightarrow> mesh p \<in> set (scene s)"
      using update_scene_other_d [OF ne(1), of s] by simp
    note ih = Cons.IH [OF da(4) p ds2]
    show ?thesis
      unfolding fe using ih ne(1) by (simp add: h2 sc2)
  qed
qed

lemma animate_pass_d:
  "\<exists>s0. animate_d s = updateProjectiles_d s0 \<and> heap s0 = heap s \<and> scene s0 = scene s \<and>
        projectiles s0 = projectiles s \<and> fresh s0 = fresh s \<and>
        letterN s0 = letterN s \<and> number1 s0 = number1 s"
  unfolding animate_d_def
  by (rule exI, rule conjI, rule refl) simp

lemma updateProjectiles_member_d:
  assumes "well_formed s" and "p \<in> set (projectiles s)" and "alive p"
  shows "heap (updateProjectiles_d s) (direction p)
           = multiplyScalar_d (heap s (direction p)) PROJECTILE_SPEED_d \<and>
         heap (updateProjectiles_d s) (mesh p)
           = add_vec_d (heap s (mesh p)) (multiplyScalar_d (heap s (direction p)) PROJECTILE_SPEED_d) \<and>
         (mesh p \<in> set (scene (updateProjectiles_d s))
           \<longleftrightarrow> mesh p \<in> set (scene s) \<and> \<not> 10 < length_d (heap (updateProjectiles_d s) (mesh p))) \<and>
         (\<forall>q \<in> set (projectiles (updateProjectiles_d s)). mesh q = mesh p \<longrightarrow>
            direction q = direction p \<and>
            (alive q \<longleftrightarrow> \<not> 10 < length_d (heap (updateProjectiles_d s) (mesh p)))) \<and>
         (\<exists>q \<in> set (projectiles (updateProjectiles_d s)). mesh q = mesh p)"
proof -
  let ?ps = "filter alive (projectiles s)"
  have "distinct (fixed_refs s @ projectile_refs ?ps)"
    using assms(1) distinct_projectile_refs_filter [of "fixed_refs s" "projectiles s" alive]
    by (simp add: well_formed_def)
  then have d: "distinct (projectile_refs ?ps)" by simp
  have p: "p \<in> set ?ps" using assms(2,3) by simp
  have sc: "distinct (scene s)" using assms(1) by (simp add: well_formed_def)
  have f: "heap (updateProjectiles_d s) = heap (snd (forEach_d ?ps s))"
    "scene (updateProjectiles_d s) = scene (snd (forEach_d ?ps s))"
    "projectiles (updateProjectiles_d s) = fst (forEach_d ?ps s)"
    by (simp_all add: updateProjectiles_unfold_d)
  have a: "(alive p \<and> X) = X" for X using assms(3) by simp
  show ?thesis
    unfolding f using forEach_member_d [OF d p sc] unfolding a .
qed

lemma animate_member_d:
  assumes "well_formed s" and "p \<in> set (projectiles s)" and "alive p"
  shows "heap (animate_d s) (direction p)
           = multiplyScalar_d (heap s (direction p)) PROJECTILE_SPEED_d \<and>
         heap (animate_d s) (mesh p)
           = add_vec_d (heap s (mesh p)) (multiplyScalar_d (heap s (direction p)) PROJECTILE_SPEED_d) \<and>
         (mesh p \<in> set (scene (animate_d s))
           \<longleftrightarrow> mesh p \<in> set (scene s) \<and> \<not> 10 < length_d (heap (animate_d s) (mesh p))) \<and>
         (\<forall>q \<in> set (projectiles (animate_d s)). mesh q = mesh p \<longrightarrow>
            direction q = direction p \<and>
            (alive q \<longleftrightarrow> \<not> 10 < length_d (heap (animate_d s) (mesh p)))) \<and>
         (\<exists>q \<in> set (projectiles (animate_d s)). mesh q = mesh p)"
proof -
  obtain s0 where s0: "animate_d s = updateProjectiles_d s0" "heap s0 = heap s" "scene s0 = scene s"
    "projectiles s0 = projectiles s" "fresh s0 = fresh s" "letterN s0 = letterN s"
    "number1 s0 = number1 s"
    using animate_pass_d [of s] by blast
  have w: "well_formed s0"
    using assms(1) s0 by (simp add: well_formed_def fixed_refs_def)
  have p: "p \<in> set (projectiles s0)" using assms(2) s0 by simp
  show ?thesis
    using updateProjectiles_member_d [OF w p assms(3)] by (simp add: s0)
qed

lemma animate_collection_d:
  "list_all2 (\<lambda>p q. alive p \<and> mesh q = mesh p \<and> direction q = direction p)
     (filter alive (projectiles s)) (projectiles (animate_d s))"
proof -
  have g: "map mesh qs = map mesh ps \<Longrightarrow> map direction qs = map direction ps \<Longrightarrow>
           list_all alive ps \<Longrightarrow>
           list_all2 (\<lambda>p q. alive p \<and> mesh q = mesh p \<and> direction q = direction p) ps qs"
    for ps qs :: "Projectile list"
  proof (induction ps arbitrary: qs)
    case Nil
    then show ?case by simp
  next
    case (Cons p ps)
    then obtain q qs' where "qs = q # qs'" by (cases qs) auto
    with Cons show ?case by simp
  qed
  obtain s0 where s0: "animate_d s = updateProjectiles_d s0" "projectiles s0 = projectiles s"
    using animate_pass_d [of s] by blast
  show ?thesis
    by (rule g) (simp_all add: s0 updateProjectiles_unfold_d list_all_iff)
qed

lemma animate_heap_other_d:
  assumes "r \<notin> set (projectile_refs (filter alive (projectiles s)))"
  shows "heap (animate_d s) r = heap s r"
proof -
  obtain s0 where s0: "animate_d s = updateProjectiles_d s0" "heap s0 = heap s"
    "projectiles s0 = projectiles s"
    using animate_pass_d [of s] by blast
  show ?thesis
    using forEach_heap_other_d [of r "filter alive (projectiles s)" s0] assms
    by (simp add: s0 updateProjectiles_unfold_d)
qed

lemma animate_fresh_fixed_d:
  "fresh (animate_d s) = fresh s" "fixed_refs (animate_d s) = fixed_refs s"
  by (simp_all add: animate_d_def updateProjectiles_unfold_d fixed_refs_def)

lemma tracked_entries_animate_d:
  assumes "list_all (\<lambda>q. (mesh q = m \<and> direction q = d) \<or>
                    (mesh q \<noteq> m \<and> mesh q \<noteq> d \<and> direction q \<noteq> m \<and> direction q \<noteq> d))
             (projectiles s)"
  shows "list_all (\<lambda>q. (mesh q = m \<and> direction q = d) \<or>
                    (mesh q \<noteq> m \<and> mesh q \<noteq> d \<and> direction q \<noteq> m \<and> direction q \<noteq> d))
             (projectiles (animate_d s))"
proof -
  let ?P = "\<lambda>p q :: Projectile. alive p \<and> mesh q = mesh p \<and> direction q = direction p"
  have g: "list_all2 ?P ps qs \<Longrightarrow>
           list_all (\<lambda>q. (mesh q = m \<and> direction q = d) \<or>
                    (mesh q \<noteq> m \<and> mesh q \<noteq> d \<and> direction q \<noteq> m \<and> direction q \<noteq> d)) ps \<Longrightarrow>
           list_all (\<lambda>q. (mesh q = m \<and> direction q = d) \<or>
                    (mesh q \<noteq> m \<and> mesh q \<noteq> d \<and> direction q \<noteq> m \<and> direction q \<noteq> d)) qs"
    for ps qs
    by (induction ps qs rule: list_all2_induct) auto
  have "list_all (\<lambda>q. (mesh q = m \<and> direction q = d) \<or>
                    (mesh q \<noteq> m \<and> mesh q \<noteq> d \<and> direction q \<noteq> m \<and> direction q \<noteq> d))
             (filter alive (projectiles s))"
    using assms by (simp add: list_all_iff)
  with animate_collection_d [of s] show ?thesis by (rule g)
qed

lemma keydown_heap_other_d:
  "r \<noteq> cubeMesh \<Longrightarrow> r \<noteq> camera \<Longrightarrow> r < fresh s \<Longrightarrow> heap (keydown_d k a b c s) r = heap s r"
  by (simp add: keydown_d_def clone_def new_Vector3_def new_Projectile_d_def Let_def)

lemma keydown_projectiles_d:
  "\<exists>qs. projectiles (keydown_d k a b c s) = projectiles s @ qs \<and>
        list_all (\<lambda>q. fresh s \<le> mesh q \<and> fresh s \<le> direction q) qs"
proof (cases "k = '' ''")
  case True
  then show ?thesis by (simp add: keydown_space_d)
next
  case False
  then show ?thesis by (simp add: keydown_move_fields_d)
qed

lemma keydown_fresh_d: "fresh s \<le> fresh (keydown_d k a b c s)"
  by (cases "k = '' ''") (simp_all add: keydown_space_d keydown_move_fields_d)

lemma keydown_fixed_refs_d: "fixed_refs (keydown_d k a b c s) = fixed_refs s"
  by (simp add: fixed_refs_def keydown_fields_d)

lemma keydown_scene_d: "m \<in> set (scene s) \<Longrightarrow> m \<in> set (scene (keydown_d k a b c s))"
proof (cases "k = '' ''")
  case True
  assume "m \<in> set (scene s)"
  then show ?thesis
    unfolding True keydown_space_d scene_add_def
    by (cases "m = Suc (Suc (fresh s))") simp_all
next
  case False
  assume "m \<in> set (scene s)"
  then show ?thesis using False by (simp add: keydown_move_fields_d)
qed

lemma wf_animate_d: "well_formed s \<Longrightarrow> well_formed (animate_d s)"
proof -
  assume w: "well_formed s"
  obtain s0 where s0: "animate_d s = updateProjectiles_d s0" "heap s0 = heap s" "scene s0 = scene s"
    "projectiles s0 = projectiles s" "fresh s0 = fresh s" "letterN s0 = letterN s"
    "number1 s0 = number1 s"
    using animate_pass_d [of s] by blast
  have "well_formed s0"
    using w s0 by (simp add: well_formed_def fixed_refs_def)
  then show ?thesis
    unfolding s0(1) by (rule wf_updateProjectiles_d)
qed

lemma wf_step_d: "well_formed s \<Longrightarrow> well_formed (step_d e s)"
  by (cases e) (simp_all add: wf_animate_d wf_keydown_d wf_font_loaded)

lemma wf_run_d: "well_formed s \<Longrightarrow> well_formed (run_d es s)"
  by (induction es arbitrary: s) (simp_all add: wf_step_d)

lemma reachable_well_formed_d: "well_formed (run_d es init)"
  by (rule wf_run_d [OF wf_init])

lemma tracked_animate_d:
  assumes w: "well_formed s" and t: "tracked_d p x0 d j s"
  shows "tracked_d p x0 d j (animate_d s) \<or> tracked_d p x0 d (Suc j) (animate_d s)"
proof (cases "\<exists>q \<in> set (filter alive (projectiles s)). mesh q = mesh p")
  case True
  then obtain q where q: "q \<in> set (projectiles s)" "alive q" "mesh q = mesh p"
    by auto
  have qd: "direction q = direction p"
    using t q(1) q(3) by (auto simp: tracked_d_def list_all_iff)
  note m = animate_member_d [OF w q(1) q(2)]
  have h: "heap s (direction p) = snd (moved j (x0, d))"
    "heap s (mesh p) = fst (moved j (x0, d))"
    using t by (simp_all add: tracked_d_def)
  have "heap (animate_d s) (direction p) = snd (moved (Suc j) (x0, d))"
    "heap (animate_d s) (mesh p) = fst (moved (Suc j) (x0, d))"
    using m h unfolding q(3) qd by (simp_all add: Let_def)
  then have "tracked_d p x0 d (Suc j) (animate_d s)"
    using t tracked_entries_animate_d [of "mesh p" "direction p" s]
    unfolding tracked_d_def animate_fresh_fixed_d by simp
  then show ?thesis ..
next
  case False
  have e: "\<forall>q \<in> set (filter alive (projectiles s)).
             mesh q \<noteq> mesh p \<and> mesh q \<noteq> direction p \<and>
             direction q \<noteq> mesh p \<and> direction q \<noteq> direction p"
    using t False by (auto simp: tracked_d_def list_all_iff)
  have n: "mesh p \<notin> set (projectile_refs (filter alive (projectiles s)))"
    "direction p \<notin> set (projectile_refs (filter alive (projectiles s)))"
    using e unfolding set_projectile_refs by auto
  have "tracked_d p x0 d j (animate_d s)"
    using t tracked_entries_animate_d [of "mesh p" "direction p" s]
    unfolding tracked_d_def animate_fresh_fixed_d
    by (simp add: animate_heap_other_d [OF n(1)] animate_heap_other_d [OF n(2)])
  then show ?thesis ..
qed

lemma tracked_keydown_d:
  assumes t: "tracked_d p x0 d j s"
  shows "tracked_d p x0 d j (keydown_d k a b c s)"
proof -
  have r: "mesh p \<noteq> cubeMesh" "mesh p \<noteq> camera" "mesh p < fresh s"
    "direction p \<noteq> cubeMesh" "direction p \<noteq> camera" "direction p < fresh s"
    using t cube_camera_fixed [of s] by (auto simp: tracked_d_def)
  obtain qs where qs: "projectiles (keydown_d k a b c s) = projectiles s @ qs"
    "list_all (\<lambda>q. fresh s \<le> mesh q \<and> fresh s \<le> direction q) qs"
    using keydown_projectiles_d [of k a b c s] by blast
  have new: "list_all (\<lambda>q. (mesh q = mesh p \<and> direction q = direction p) \<or>
                    (mesh q \<noteq> mesh p \<and> mesh q \<noteq> direction p \<and>
                     direction q \<noteq> mesh p \<and> direction q \<noteq> direction p)) qs"
    using qs(2) r(3) r(6) by (auto simp: list_all_iff)
  have fr: "mesh p < fresh (keydown_d k a b c s)" "direction p < fresh (keydown_d k a b c s)"
    using r(3) r(6) keydown_fresh_d [of s k a b c] by simp_all
  show ?thesis
    using t new fr unfolding tracked_d_def keydown_fixed_refs_d qs(1)
    by (simp add: keydown_heap_other_d [OF r(1) r(2) r(3)] keydown_heap_other_d [OF r(4) r(5) r(6)])
qed

lemma tracked_font_loaded_d:
  assumes t: "tracked_d p x0 d j s"
  shows "tracked_d p x0 d j (font_loaded s)"
proof -
  have r: "mesh p \<noteq> cubeMesh" "mesh p \<noteq> camera" "mesh p < fresh s"
    "direction p \<noteq> cubeMesh" "direction p \<noteq> camera" "direction p < fresh s"
    using t cube_camera_fixed [of s] by (auto simp: tracked_d_def)
  have fx: "fixed_refs (font_loaded s) = [cubeMesh, camera, fresh s, Suc (fresh s)]"
    by (simp add: font_loaded_eq fixed_refs_def)
  have f: "fresh (font_loaded s) = Suc (Suc (fresh s))"
    "projectiles (font_loaded s) = projectiles s"
    "heap (font_loaded s) (mesh p) = heap s (mesh p)"
    "heap (font_loaded s) (direction p) = heap s (direction p)"
    using r by (simp_all add: font_loaded_eq)
  show ?thesis
    using t r unfolding tracked_d_def fx f by simp
qed

lemma tracked_run_d:
  assumes "well_formed s" and "tracked_d p x0 d j s"
  shows "\<exists>j'. j' \<le> j + frames es \<and> tracked_d p x0 d j' (run_d es s)"
  using assms
proof (induction es arbitrary: s j)
  case Nil
  then show ?case by (auto simp: frames_def intro!: exI [of _ j])
next
  case (Cons e es)
  have w: "well_formed (step_d e s)" using Cons.prems(1) by (rule wf_step_d)
  show ?case
  proof (cases e)
    case Frame
    from tracked_animate_d [OF Cons.prems] consider
      "tracked_d p x0 d j (animate_d s)" | "tracked_d p x0 d (Suc j) (animate_d s)" by blast
    then show ?thesis
    proof cases
      case 1
      with Cons.IH [of "animate_d s" j] w Frame obtain j' where
        "j' \<le> j + frames es" "tracked_d p x0 d j' (run_d es (animate_d s))" by auto
      then show ?thesis using Frame by (auto simp: frames_Cons intro!: exI [of _ j'])
    next
      case 2
      with Cons.IH [of "animate_d s" "Suc j"] w Frame obtain j' where
        "j' \<le> Suc j + frames es" "tracked_d p x0 d j' (run_d es (animate_d s))" by auto
      then show ?thesis using Frame by (auto simp: frames_Cons intro!: exI [of _ j'])
    qed
  next
    case (KeyDown k a b c)
    have "tracked_d p x0 d j (keydown_d k a b c s)"
      using Cons.prems(2) by (rule tracked_keydown_d)
    with Cons.IH [of "keydown_d k a b c s" j] w KeyDown obtain j' where
      "j' \<le> j + frames es" "tracked_d p x0 d j' (run_d es (keydown_d k a b c s))" by auto
    then show ?thesis using KeyDown by (auto simp: frames_Cons intro!: exI [of _ j'])
  next
    case FontLoaded
    have "tracked_d p x0 d j (font_loaded s)"
      using Cons.prems(2) by (rule tracked_font_loaded_d)
    with Cons.IH [of "font_loaded s" j] w FontLoaded obtain j' where
      "j' \<le> j + frames es" "tracked_d p x0 d j' (run_d es (font_loaded s))" by auto
    then show ?thesis using FontLoaded by (auto simp: frames_Cons intro!: exI [of _ j'])
  qed
qed

lemma live_animate_d:
  assumes w: "well_formed s" and t: "tracked_d p x0 d j s"
    and p: "p \<in> set (projectiles s)" and a: "alive p" and sc: "mesh p \<in> set (scene s)"
    and near: "\<not> 10 < length_d (fst (moved (Suc j) (x0, d)))"
  shows "tracked_d p x0 d (Suc j) (animate_d s) \<and> p \<in> set (projectiles (animate_d s)) \<and>
         mesh p \<in> set (scene (animate_d s))"
proof -
  note m = animate_member_d [OF w p a]
  have h: "heap s (direction p) = snd (moved j (x0, d))"
    "heap s (mesh p) = fst (moved j (x0, d))"
    using t by (simp_all add: tracked_d_def)
  have h': "heap (animate_d s) (direction p) = snd (moved (Suc j) (x0, d))"
    "heap (animate_d s) (mesh p) = fst (moved (Suc j) (x0, d))"
    using m h by (simp_all add: Let_def)
  have tr: "tracked_d p x0 d (Suc j) (animate_d s)"
    using t h' tracked_entries_animate_d [of "mesh p" "direction p" s]
    unfolding tracked_d_def animate_fresh_fixed_d by simp
  have near: "\<not> 10 < length_d (heap (animate_d s) (mesh p))"
    using near unfolding h'(2) .
  obtain q where q: "q \<in> set (projectiles (animate_d s))" "mesh q = mesh p"
    using m by blast
  have "direction q = direction p \<and> alive q"
    using m q near by simp
  then have "q = p" using q(2) a by simp
  then have "p \<in> set (projectiles (animate_d s))" using q(1) by simp
  moreover have "mesh p \<in> set (scene (animate_d s))"
    using m sc near by simp
  ultimately show ?thesis using tr by simp
qed

lemma live_run_d:
  assumes "well_formed s" and "tracked_d p x0 d j s"
    and "p \<in> set (projectiles s)" and "alive p" and "mesh p \<in> set (scene s)"
    and "\<forall>i. \<not> 10 < length_d (fst (moved i (x0, d)))"
  shows "tracked_d p x0 d (j + frames es) (run_d es s) \<and> p \<in> set (projectiles (run_d es s)) \<and>
         mesh p \<in> set (scene (run_d es s))"
  using assms(1,2,3,5)
proof (induction es arbitrary: s j)
  case Nil
  then show ?case by (simp add: frames_def)
next
  case (Cons e es)
  have w: "well_formed (step_d e s)" using Cons.prems(1) by (rule wf_step_d)
  show ?case
  proof (cases e)
    case Frame
    note l = live_animate_d [OF Cons.prems(1,2,3) assms(4) Cons.prems(4) spec [OF assms(6)]]
    have "tracked_d p x0 d (Suc j + frames es) (run_d es (animate_d s)) \<and>
          p \<in> set (projectiles (run_d es (animate_d s))) \<and>
          mesh p \<in> set (scene (run_d es (animate_d s)))"
      using l w Frame by (intro Cons.IH) simp_all
    then show ?thesis using Frame by (simp add: frames_Cons)
  next
    case (KeyDown k a b c)
    have t: "tracked_d p x0 d j (keydown_d k a b c s)"
      using Cons.prems(2) by (rule tracked_keydown_d)
    have p: "p \<in> set (projectiles (keydown_d k a b c s))"
      using keydown_projectiles_d [of k a b c s] Cons.prems(3) by auto
    have sc: "mesh p \<in> set (scene (keydown_d k a b c s))"
      using Cons.prems(4) by (rule keydown_scene_d)
    have "tracked_d p x0 d (j + frames es) (run_d es (keydown_d k a b c s)) \<and>
          p \<in> set (projectiles (run_d es (keydown_d k a b c s))) \<and>
          mesh p \<in> set (scene (run_d es (keydown_d k a b c s)))"
      using t p sc w KeyDown by (intro Cons.IH) simp_all
    then show ?thesis using KeyDown by (simp add: frames_Cons)
  next
    case FontLoaded
    have t: "tracked_d p x0 d j (font_loaded s)"
      using Cons.prems(2) by (rule tracked_font_loaded_d)
    have p: "p \<in> set (projectiles (font_loaded s))"
      using Cons.prems(3) by (simp add: font_loaded_eq)
    have sc: "mesh p \<in> set (scene (font_loaded s))"
      using Cons.prems(4) by (rule font_loaded_scene)
    have "tracked_d p x0 d (j + frames es) (run_d es (font_loaded s)) \<and>
          p \<in> set (projectiles (run_d es (font_loaded s))) \<and>
          mesh p \<in> set (scene (run_d es (font_loaded s)))"
      using t p sc w FontLoaded by (intro Cons.IH) simp_all
    then show ?thesis using FontLoaded by (simp add: frames_Cons)
  qed
qed

lemma spawn_tracked_d:
  assumes w: "well_formed s"
  shows "tracked_d \<lparr>mesh = Suc (Suc (fresh s)), direction = Suc (fresh s), alive = True\<rparr>
           (heap s cubeMesh) (normalize_d (Vector3 (fl (r1 - 0.5)) (fl (r2 - 0.5)) (fl (r3 - 0.5)))) 0
           (keydown_d '' '' r1 r2 r3 s)"
proof -
  let ?f = "fresh s"
  have lt: "list_all (\<lambda>r. r < ?f) (fixed_refs s @ projectile_refs (projectiles s))"
    using w by (simp add: well_formed_def)
  have n: "Suc ?f \<notin> set (fixed_refs s @ projectile_refs (projectiles s))"
    "Suc (Suc ?f) \<notin> set (fixed_refs s @ projectile_refs (projectiles s))"
    by (rule below_notin [OF lt], simp)+
  have old: "list_all (\<lambda>q. (mesh q = Suc (Suc ?f) \<and> direction q = Suc ?f) \<or>
                    (mesh q \<noteq> Suc (Suc ?f) \<and> mesh q \<noteq> Suc ?f \<and>
                     direction q \<noteq> Suc (Suc ?f) \<and> direction q \<noteq> Suc ?f)) (projectiles s)"
    using mesh_allocated [OF w] by (fastforce simp: list_all_iff)
  have fx: "fixed_refs (keydown_d '' '' r1 r2 r3 s) = fixed_refs s"
    by (rule keydown_fixed_refs_d)
  show ?thesis
    unfolding tracked_d_def fx using n old by (simp add: keydown_space_d)
qed

section \<open>Sixteen frames from the origin\<close>

text \<open>
  The first coordinate of a projectile that starts at 0 with direction 1, call by call:
  each rounding is checked against the exponent and the integer multiple of its result.
\<close>

lemma moved1_0: "moved1 0 (0, 1) = (0, 1)"
  by simp

lemma moved1_1: "moved1 1 (0, 1) = (3602879701896397 / 2 ^ 55, 3602879701896397 / 2 ^ 55)"
proof -
  have n: "(1::nat) = Suc 0" by simp
  have d: "fl (1 * PROJECTILE_SPEED_d) = 3602879701896397 / 2 ^ 55"
    unfolding speed_value
    by (rule fl_eval [where e = "-56" and n = 7205759403792794])
      (simp_all add: round_half_even_def power_int_minus)
  have x: "fl (0 + 3602879701896397 / 2 ^ 55) = 3602879701896397 / 2 ^ 55"
    by (rule fl_eval [where e = "-56" and n = 7205759403792794])
      (simp_all add: round_half_even_def power_int_minus)
  show ?thesis
    by (simp only: n moved1.simps Let_def moved1_0 fst_conv snd_conv d x)
qed

lemma moved1_2: "moved1 2 (0, 1) = (3963167672086037 / 2 ^ 55, 1441151880758559 / 2 ^ 57)"
proof -
  have n: "(2::nat) = Suc 1" by simp
  have d: "fl ((3602879701896397 / 2 ^ 55) * PROJECTILE_SPEED_d) = 1441151880758559 / 2 ^ 57"
    unfolding speed_value
    by (rule fl_eval [where e = "-59" and n = 5764607523034236])
      (simp_all add: round_half_even_def power_int_minus)
  have x: "fl ((3602879701896397 / 2 ^ 55) + 1441151880758559 / 2 ^ 57) = 3963167672086037 / 2 ^ 55"
    by (rule fl_eval [where e = "-56" and n = 7926335344172074])
      (simp_all add: round_half_even_def power_int_minus)
  show ?thesis
    by (simp only: n moved1.simps Let_def moved1_1 fst_conv snd_conv d x)
qed

lemma moved1_3: "moved1 3 (0, 1) = (3999196469105001 / 2 ^ 55, 4611686018427389 / 2 ^ 62)"
proof -
  have n: "(3::nat) = Suc 2" by simp
  have d: "fl ((1441151880758559 / 2 ^ 57) * PROJECTILE_SPEED_d) = 4611686018427389 / 2 ^ 62"
    unfolding speed_value
    by (rule fl_eval [where e = "-62" and n = 4611686018427389])
      (simp_all add: round_half_even_def power_int_minus)
  have x: "fl ((3963167672086037 / 2 ^ 55) + 4611686018427389 / 2 ^ 62) = 3999196469105001 / 2 ^ 55"
    by (rule fl_eval [where e = "-56" and n = 7998392938210002])
      (simp_all add: round_half_even_def power_int_minus)
  show ?thesis
    by (simp only: n moved1.simps Let_def moved1_2 fst_conv snd_conv d x)
qed

lemma moved1_4: "moved1 4 (0, 1) = (8005598697613795 / 2 ^ 56, 7378697629483823 / 2 ^ 66)"
proof -
  have n: "(4::nat) = Suc 3" by simp
  have d: "fl ((4611686018427389 / 2 ^ 62) * PROJECTILE_SPEED_d) = 7378697629483823 / 2 ^ 66"
    unfolding speed_value
    by (rule fl_eval [where e = "-66" and n = 7378697629483823])
      (simp_all add: round_half_even_def power_int_minus)
  have x: "fl ((3999196469105001 / 2 ^ 55) + 7378697629483823 / 2 ^ 66) = 8005598697613795 / 2 ^ 56"
    by (rule fl_eval [where e = "-56" and n = 8005598697613795])
      (simp_all add: round_half_even_def power_int_minus)
  show ?thesis
    by (simp only: n moved1.simps Let_def moved1_3 fst_conv snd_conv d x)
qed

lemma moved1_5: "moved1 5 (0, 1) = (4003159636777087 / 2 ^ 55, 5902958103587059 / 2 ^ 69)"
proof -
  have n: "(5::nat) = Suc 4" by simp
  have d: "fl ((7378697629483823 / 2 ^ 66) * PROJECTILE_SPEED_d) = 5902958103587059 / 2 ^ 69"
    unfolding speed_value
    by (rule fl_eval [where e = "-69" and n = 5902958103587059])
      (simp_all add: round_half_even_def power_int_minus)
  have x: "fl ((8005598697613795 / 2 ^ 56) + 5902958103587059 / 2 ^ 69) = 4003159636777087 / 2 ^ 55"
    by (rule fl_eval [where e = "-56" and n = 8006319273554174])
      (simp_all add: round_half_even_def power_int_minus)
  show ?thesis
    by (simp only: n moved1.simps Let_def moved1_4 fst_conv snd_conv d x)
qed

lemma moved1_6: "moved1 6 (0, 1) = (2001597832787053 / 2 ^ 54, 4722366482869647 / 2 ^ 72)"
proof -
  have n: "(6::nat) = Suc 5" by simp
  have d: "fl ((5902958103587059 / 2 ^ 69) * PROJECTILE_SPEED_d) = 4722366482869647 / 2 ^ 72"
    unfolding speed_value
    by (rule fl_eval [where e = "-72" and n = 4722366482869647])
      (simp_all add: round_half_even_def power_int_minus)
  have x: "fl ((4003159636777087 / 2 ^ 55) + 4722366482869647 / 2 ^ 72) = 2001597832787053 / 2 ^ 54"
    by (rule fl_eval [where e = "-56" and n = 8006391331148212])
      (simp_all add: round_half_even_def power_int_minus)
  show ?thesis
    by (simp only: n moved1.simps Let_def moved1_5 fst_conv snd_conv d x)
qed

lemma moved1_7: "moved1 7 (0, 1) = (250199954278363 / 2 ^ 51, 1888946593147859 / 2 ^ 74)"
proof -
  have n: "(7::nat) = Suc 6" by simp
  have d: "fl ((4722366482869647 / 2 ^ 72) * PROJECTILE_SPEED_d) = 1888946593147859 / 2 ^ 74"
    unfolding speed_value
    by (rule fl_eval [where e = "-76" and n = 7555786372591436])
      (simp_all add: round_half_even_def power_int_minus)
  have x: "fl ((2001597832787053 / 2 ^ 54) + 1888946593147859 / 2 ^ 74) = 250199954278363 / 2 ^ 51"
    by (rule fl_eval [where e = "-56" and n = 8006398536907616])
      (simp_all add: round_half_even_def power_int_minus)
  show ?thesis
    by (simp only: n moved1.simps Let_def moved1_6 fst_conv snd_conv d x)
qed

lemma moved1_8: "moved1 8 (0, 1) = (2001599814370889 / 2 ^ 54, 6044629098073149 / 2 ^ 79)"
proof -
  have n: "(8::nat) = Suc 7" by simp
  have d: "fl ((1888946593147859 / 2 ^ 74) * PROJECTILE_SPEED_d) = 6044629098073149 / 2 ^ 79"
    unfolding speed_value
    by (rule fl_eval [where e = "-79" and n = 6044629098073149])
      (simp_all add: round_half_even_def power_int_minus)
  have x: "fl ((250199954278363 / 2 ^ 51) + 6044629098073149 / 2 ^ 79) = 2001599814370889 / 2 ^ 54"
    by (rule fl_eval [where e = "-56" and n = 8006399257483556])
      (simp_all add: round_half_even_def power_int_minus)
  show ?thesis
    by (simp only: n moved1.simps Let_def moved1_7 fst_conv snd_conv d x)
qed

lemma moved1_9: "moved1 9 (0, 1) = (4003199664770575 / 2 ^ 55, 4835703278458519 / 2 ^ 82)"
proof -
  have n: "(9::nat) = Suc 8" by simp
  have d: "fl ((6044629098073149 / 2 ^ 79) * PROJECTILE_SPEED_d) = 4835703278458519 / 2 ^ 82"
    unfolding speed_value
    by (rule fl_eval [where e = "-82" and n = 4835703278458519])
      (simp_all add: round_half_even_def power_int_minus)
  have x: "fl ((2001599814370889 / 2 ^ 54) + 4835703278458519 / 2 ^ 82) = 4003199664770575 / 2 ^ 55"
    by (rule fl_eval [where e = "-56" and n = 8006399329541150])
      (simp_all add: round_half_even_def power_int_minus)
  show ?thesis
    by (simp only: n moved1.simps Let_def moved1_8 fst_conv snd_conv d x)
qed

lemma moved1_10: "moved1 10 (0, 1) = (8006399336746909 / 2 ^ 56, 7737125245533631 / 2 ^ 86)"
proof -
  have n: "(10::nat) = Suc 9" by simp
  have d: "fl ((4835703278458519 / 2 ^ 82) * PROJECTILE_SPEED_d) = 7737125245533631 / 2 ^ 86"
    unfolding speed_value
    by (rule fl_eval [where e = "-86" and n = 7737125245533631])
      (simp_all add: round_half_even_def power_int_minus)
  have x: "fl ((4003199664770575 / 2 ^ 55) + 7737125245533631 / 2 ^ 86) = 8006399336746909 / 2 ^ 56"
    by (rule fl_eval [where e = "-56" and n = 8006399336746909])
      (simp_all add: round_half_even_def power_int_minus)
  show ?thesis
    by (simp only: n moved1.simps Let_def moved1_9 fst_conv snd_conv d x)
qed

lemma moved1_11: "moved1 11 (0, 1) = (8006399337467485 / 2 ^ 56, 6189700196426905 / 2 ^ 89)"
proof -
  have n: "(11::nat) = Suc 10" by simp
  have d: "fl ((7737125245533631 / 2 ^ 86) * PROJECTILE_SPEED_d) = 6189700196426905 / 2 ^ 89"
    unfolding speed_value
    by (rule fl_eval [where e = "-89" and n = 6189700196426905])
      (simp_all add: round_half_even_def power_int_minus)
  have x: "fl ((8006399336746909 / 2 ^ 56) + 6189700196426905 / 2 ^ 89) = 8006399337467485 / 2 ^ 56"
    by (rule fl_eval [where e = "-56" and n = 8006399337467485])
      (simp_all add: round_half_even_def power_int_minus)
  show ?thesis
    by (simp only: n moved1.simps Let_def moved1_10 fst_conv snd_conv d x)
qed

lemma moved1_12: "moved1 12 (0, 1) = (8006399337539543 / 2 ^ 56, 1237940039285381 / 2 ^ 90)"
proof -
  have n: "(12::nat) = Suc 11" by simp
  have d: "fl ((6189700196426905 / 2 ^ 89) * PROJECTILE_SPEED_d) = 1237940039285381 / 2 ^ 90"
    unfolding speed_value
    by (rule fl_eval [where e = "-92" and n = 4951760157141524])
      (simp_all add: round_half_even_def power_int_minus)
  have x: "fl ((8006399337467485 / 2 ^ 56) + 1237940039285381 / 2 ^ 90) = 8006399337539543 / 2 ^ 56"
    by (rule fl_eval [where e = "-56" and n = 8006399337539543])
      (simp_all add: round_half_even_def power_int_minus)
  show ?thesis
    by (simp only: n moved1.simps Let_def moved1_11 fst_conv snd_conv d x)
qed

lemma moved1_13: "moved1 13 (0, 1) = (8006399337546749 / 2 ^ 56, 7922816251426439 / 2 ^ 96)"
proof -
  have n: "(13::nat) = Suc 12" by simp
  have d: "fl ((1237940039285381 / 2 ^ 90) * PROJECTILE_SPEED_d) = 7922816251426439 / 2 ^ 96"
    unfolding speed_value
    by (rule fl_eval [where e = "-96" and n = 7922816251426439])
      (simp_all add: round_half_even_def power_int_minus)
  have x: "fl ((8006399337539543 / 2 ^ 56) + 7922816251426439 / 2 ^ 96) = 8006399337546749 / 2 ^ 56"
    by (rule fl_eval [where e = "-56" and n = 8006399337546749])
      (simp_all add: round_half_even_def power_int_minus)
  show ?thesis
    by (simp only: n moved1.simps Let_def moved1_12 fst_conv snd_conv d x)
qed

lemma moved1_14: "moved1 14 (0, 1) = (4003199668773735 / 2 ^ 55, 198070406285661 / 2 ^ 94)"
proof -
  have n: "(14::nat) = Suc 13" by simp
  have d: "fl ((7922816251426439 / 2 ^ 96) * PROJECTILE_SPEED_d) = 198070406285661 / 2 ^ 94"
    unfolding speed_value
    by (rule fl_eval [where e = "-99" and n = 6338253001141152])
      (simp_all add: round_half_even_def power_int_minus)
  have x: "fl ((8006399337546749 / 2 ^ 56) + 198070406285661 / 2 ^ 94) = 4003199668773735 / 2 ^ 55"
    by (rule fl_eval [where e = "-56" and n = 8006399337547470])
      (simp_all add: round_half_even_def power_int_minus)
  show ?thesis
    by (simp only: n moved1.simps Let_def moved1_13 fst_conv snd_conv d x)
qed

lemma moved1_15: "moved1 15 (0, 1) = (4003199668773771 / 2 ^ 55, 2535301200456461 / 2 ^ 101)"
proof -
  have n: "(15::nat) = Suc 14" by simp
  have d: "fl ((198070406285661 / 2 ^ 94) * PROJECTILE_SPEED_d) = 2535301200456461 / 2 ^ 101"
    unfolding speed_value
    by (rule fl_eval [where e = "-102" and n = 5070602400912922])
      (simp_all add: round_half_even_def power_int_minus)
  have x: "fl ((4003199668773735 / 2 ^ 55) + 2535301200456461 / 2 ^ 101) = 4003199668773771 / 2 ^ 55"
    by (rule fl_eval [where e = "-56" and n = 8006399337547542])
      (simp_all add: round_half_even_def power_int_minus)
  show ?thesis
    by (simp only: n moved1.simps Let_def moved1_14 fst_conv snd_conv d x)
qed

lemma moved1_16: "moved1 16 (0, 1) = (8006399337547549 / 2 ^ 56, 2028240960365169 / 2 ^ 104)"
proof -
  have n: "(16::nat) = Suc 15" by simp
  have d: "fl ((2535301200456461 / 2 ^ 101) * PROJECTILE_SPEED_d) = 2028240960365169 / 2 ^ 104"
    unfolding speed_value
    by (rule fl_eval [where e = "-106" and n = 8112963841460676])
      (simp_all add: round_half_even_def power_int_minus)
  have x: "fl ((4003199668773771 / 2 ^ 55) + 2028240960365169 / 2 ^ 104) = 8006399337547549 / 2 ^ 56"
    by (rule fl_eval [where e = "-56" and n = 8006399337547549])
      (simp_all add: round_half_even_def power_int_minus)
  show ?thesis
    by (simp only: n moved1.simps Let_def moved1_15 fst_conv snd_conv d x)
qed

lemma one_shot_d_fields:
  "projectiles one_shot_d = [\<lparr>mesh = 5, direction = 4, alive = True\<rparr>]"
  "heap one_shot_d 5 = Vector3 0 0 0"
  "heap one_shot_d 4 = Vector3 1 0 0"
  "scene one_shot_d = [cubeMesh, ambientLight, 5]"
  by (simp_all add: one_shot_d_def keydown_space_d init_def cubeMesh_def camera_def
      ambientLight_def scene_add_def fl_powers_of_two normalize_d_quarter)

section \<open>The scene with a dead and a live entry\<close>






section \<open>The key-down handler\<close>

lemma keydown_other_key:
  "key \<notin> {''w'', ''s'', ''a'', ''d'', ''q'', ''e'', '' ''} \<Longrightarrow> keydown key r1 r2 r3 s = s"
  by (simp add: keydown_def)



section \<open>The highlight\<close>



text \<open>
  Claim C2 (fails on the code). In the two-projectile scene, after one frame the first
  projectile is live, in the collection and at distance 1.9 from the letter mesh, less
  than the detection radius, but the letter's ambient-intensity uniform ends the frame at
  0.401: the second projectile, evaluated later in the same loop, is outside the radius
  and overwrote the 0.8.
\<close>

theorem highlight_overwritten_by_later_projectile:
  "letterN two_shots = Some 3 \<and>
   \<lparr>mesh = 7, direction = 6, alive = True\<rparr> \<in> set (projectiles (animate two_shots)) \<and>
   distanceTo (heap (animate two_shots) 7) (heap (animate two_shots) 3) < DETECTION_RADIUS \<and>
   alphabet_ambientIntensity (animate two_shots) = 0.401"
  by (simp add: animate_two_shots two_shots_fields distanceTo_lt_iff distanceToSquared_def DETECTION_RADIUS_def)

section \<open>Before the font has loaded\<close>



section \<open>Removal of projectiles\<close>



text \<open>
  Claim C3, as amended. The pass filters first and updates afterwards. So the collection
  after a frame consists of exactly the projectiles that were live when the frame began,
  in the same order (the iteration never meets an entry that was dead when it began, and
  entries that were dead are dropped, not only flagged). An entry that is dead after the
  frame died in this very frame: its position is further than 10 from the origin and its
  mesh has left the scene; it stays in the collection until the next frame, whose filter
  removes it before iterating.
\<close>

theorem dead_entries_removed_by_next_pass:
  assumes "well_formed s"
  shows "list_all2 (\<lambda>p q. alive p \<and> mesh q = mesh p \<and> direction q = direction p)
           (filter alive (projectiles s)) (projectiles (animate s)) \<and>
         (\<forall>q \<in> set (projectiles (animate s)). \<not> alive q \<longrightarrow>
            10 < length_vec (heap (animate s) (mesh q)) \<and>
            mesh q \<notin> set (scene (animate s)) \<and>
            (\<forall>ks. \<forall>q' \<in> set (projectiles
                      (animate (run (map (\<lambda>(k, a, b, c). KeyDown k a b c) ks) (animate s)))).
               mesh q' \<noteq> mesh q))"
proof -
  have "10 < length_vec (heap (animate s) (mesh q)) \<and>
        mesh q \<notin> set (scene (animate s)) \<and>
        (\<forall>ks. \<forall>q' \<in> set (projectiles
                  (animate (run (map (\<lambda>(k, a, b, c). KeyDown k a b c) ks) (animate s)))).
           mesh q' \<noteq> mesh q)"
    if q: "q \<in> set (projectiles (animate s))" and dead: "\<not> alive q" for q
  proof -
    have "mesh q \<in> mesh ` set (projectiles (animate s))" using q by simp
    then have "mesh q \<in> mesh ` set (filter alive (projectiles s))"
      by (simp only: animate_mesh_set)
    then obtain p where p: "p \<in> set (projectiles s)" "alive p" "mesh p = mesh q"
      by auto
    note m = animate_member [OF assms p(1) p(2)]
    have far: "10 < length_vec (heap (animate s) (mesh p))"
      using m q dead p(3) by auto
    show ?thesis
      using out_of_range_in_frame [OF assms p(1) p(2) far] far
      unfolding p(3) by blast
  qed
  then show ?thesis
    using animate_collection [of s] by blast
qed

theorem dead_entries_removed_by_next_pass_witness:
  "well_formed far_shot \<and>
   list_all2 (\<lambda>p q. alive p \<and> mesh q = mesh p \<and> direction q = direction p)
     (filter alive (projectiles far_shot)) (projectiles (animate far_shot)) \<and>
   projectiles (animate far_shot) = [\<lparr>mesh = 5, direction = 4, alive = False\<rparr>] \<and>
   10 < length_vec (heap (animate far_shot) 5) \<and>
   projectiles (animate (animate far_shot)) = []"
proof -
  note t = dead_entries_removed_by_next_pass [OF wf_far_shot]
  have ps: "projectiles (animate far_shot) = [\<lparr>mesh = 5, direction = 4, alive = False\<rparr>]"
    by (simp add: animate_far_shot)
  have a: "10 < length_vec (heap (animate far_shot) 5)"
    using t unfolding ps by simp
  have "\<forall>ks. \<forall>q' \<in> set (projectiles (animate (run (map (\<lambda>(k, a, b, c). KeyDown k a b c) ks)
                (animate far_shot)))). mesh q' \<noteq> 5"
    using t unfolding ps by simp
  from spec [OF this, of "[]"] have b: "\<forall>q' \<in> set (projectiles (animate (animate far_shot))). mesh q' \<noteq> 5"
    by simp
  have "mesh ` set (projectiles (animate (animate far_shot))) \<subseteq> {5}"
    by (simp add: animate_mesh_set ps)
  with b have c: "projectiles (animate (animate far_shot)) = []"
    by (cases "projectiles (animate (animate far_shot))") auto
  show ?thesis
    using wf_far_shot t a c ps by simp
qed

text \<open>
  Claim C3 as stated fails: in the out-of-range scene the collection after the frame's
  pass contains the projectile that the pass has just marked dead.
\<close>

theorem dead_entry_after_pass_counterexample:
  "\<not> list_all alive (projectiles (animate far_shot))"
  by (simp add: animate_far_shot)

section \<open>Motion of a projectile\<close>

text \<open>
  Claim C1 (fails on the code). A projectile is spawned at the origin with unit direction
  \<open>(1, 0, 0)\<close>. The first frame moves it by 0.1, to \<open>(0.1, 0, 0)\<close>; the second
  frame moves it by 0.01 only, to \<open>(0.11, 0, 0)\<close>, and the stored direction then has
  length 0.01: \<open>update\<close> rescales the stored direction in place, so the step is not
  constant and the direction does not stay a unit vector.
\<close>

theorem step_shrinks_every_frame:
  "heap one_shot 5 = Vector3 0 0 0 \<and>
   length_vec (heap one_shot 4) = 1 \<and>
   heap (animate one_shot) 5 = Vector3 0.1 0 0 \<and>
   heap (animate (animate one_shot)) 5 = Vector3 0.11 0 0 \<and>
   length_vec (sub_vec (heap (animate (animate one_shot)) 5) (heap (animate one_shot) 5)) = 0.01 \<and>
   length_vec (heap (animate (animate one_shot)) 4) = 0.01"
proof -
  let ?p = "\<lparr>mesh = 5, direction = 4, alive = True\<rparr>"
  have p: "?p \<in> set (projectiles one_shot)" "alive ?p"
    by (simp_all add: one_shot_fields)
  note m1 = animate_member [OF wf_one_shot p]
  have h1: "heap (animate one_shot) 4 = Vector3 0.1 0 0" "heap (animate one_shot) 5 = Vector3 0.1 0 0"
    using m1 by (simp_all add: one_shot_fields multiplyScalar_def add_vec_def PROJECTILE_SPEED_def)
  have "\<exists>q \<in> set (projectiles (animate one_shot)). mesh q = 5"
    using m1 by simp
  then obtain q where q: "q \<in> set (projectiles (animate one_shot))" "mesh q = 5"
    by blast
  have "direction q = 4 \<and> alive q"
    using m1 q by (simp add: h1)
  then have "q = ?p" using q(2) by simp
  then have p2: "?p \<in> set (projectiles (animate one_shot))" using q(1) by simp
  note m2 = animate_member [OF wf_animate [OF wf_one_shot] p2 p(2)]
  have h2: "heap (animate (animate one_shot)) 4 = Vector3 0.01 0 0"
    "heap (animate (animate one_shot)) 5 = Vector3 0.11 0 0"
    using m2 by (simp_all add: h1 multiplyScalar_def add_vec_def PROJECTILE_SPEED_def)
  show ?thesis
    by (simp add: one_shot_fields h1 h2 sub_vec_def)
qed



text \<open>
  Claim C9 as amended, in double precision. Let space be pressed in a well-formed state
  (every state the program reaches is one, lemma \<open>reachable_well_formed_d\<close>) with
  random draws that are doubles from 0 up to, not including, 1. It spawns \<open>p\<close> at
  the cube's position \<open>x0\<close> with a stored direction \<open>d\<close> of length at most 1.001.
  After any history \<open>p\<close> has been moved some number \<open>j\<close> of times, at most once per
  frame, and its position and stored direction are those of \<open>j\<close> calls of
  \<^verbatim>\<open>update\<close>. Each call replaces the stored direction by a tenth of itself up to
  rounding (an error of at most its length times \<open>2 ^ - 55\<close> plus the smallest
  positive double), so the steps decay geometrically: after \<open>j\<close> calls the stored
  direction is at most \<open>0.1001 ^ j\<close> times as long as \<open>d\<close>, up to twice the
  smallest positive double, and from the 361st call on it is exactly zero. If \<open>x0\<close>
  is within 1000 of the origin, the distance from the spawn position stays at most
  0.112. If \<open>x0\<close> is at most 9.8 from the origin, then \<open>j\<close> is the number of frames,
  the position stays within 10 of the origin, the test \<^verbatim>\<open>length() > 10\<close> never
  succeeds, and \<open>p\<close> stays in the collection, live, with its mesh in the scene.
\<close>

theorem projectile_displacement_bounded:
  assumes "well_formed s"
    and "fl r1 = r1" and "0 \<le> r1" and "r1 < 1"
    and "fl r2 = r2" and "0 \<le> r2" and "r2 < 1"
    and "fl r3 = r3" and "0 \<le> r3" and "r3 < 1"
  shows "(let s1 = keydown_d '' '' r1 r2 r3 s; p = last (projectiles s1);
              d = heap s1 (direction p); x0 = heap s cubeMesh in
            alive p \<and> heap s1 (mesh p) = x0 \<and> length_vec d \<le> 1001 / 1000 \<and>
            (\<forall>es. \<exists>j \<le> frames es.
               heap (run_d es s1) (direction p) = snd (moved j (x0, d)) \<and>
               heap (run_d es s1) (mesh p) = fst (moved j (x0, d))) \<and>
            (\<forall>j. length_vec (sub_vec (snd (moved (Suc j) (x0, d)))
                              (multiplyScalar (snd (moved j (x0, d))) (1 / 10)))
                   \<le> length_vec (snd (moved j (x0, d))) / 2 ^ 55 + 2 powi (- 1074) \<and>
                 length_vec (snd (moved j (x0, d)))
                   \<le> (1001 / 10000) ^ j * length_vec d + 2 powi (- 1073) \<and>
                 (361 \<le> j \<longrightarrow> snd (moved j (x0, d)) = Vector3 0 0 0)) \<and>
            (length_vec x0 \<le> 1000 \<longrightarrow>
               (\<forall>es. length_vec (sub_vec (heap (run_d es s1) (mesh p)) x0) \<le> 112 / 1000)) \<and>
            (length_vec x0 \<le> 9.8 \<longrightarrow>
               (\<forall>es. heap (run_d es s1) (direction p) = snd (moved (frames es) (x0, d)) \<and>
                  heap (run_d es s1) (mesh p) = fst (moved (frames es) (x0, d)) \<and>
                  length_vec (heap (run_d es s1) (mesh p)) < 10 \<and>
                  \<not> 10 < length_d (heap (run_d es s1) (mesh p)) \<and>
                  p \<in> set (projectiles (run_d es s1)) \<and>
                  mesh p \<in> set (scene (run_d es s1)))))"
proof -
  define s1 where "s1 = keydown_d '' '' r1 r2 r3 s"
  define p where "p = \<lparr>mesh = Suc (Suc (fresh s)), direction = Suc (fresh s), alive = True\<rparr>"
  define d where "d = normalize_d (Vector3 (fl (r1 - 0.5)) (fl (r2 - 0.5)) (fl (r3 - 0.5)))"
  define x0 where "x0 = heap s cubeMesh"
  have w1: "well_formed s1" unfolding s1_def using assms(1) by (rule wf_keydown_d)
  have t: "tracked_d p x0 d 0 s1"
    unfolding p_def x0_def d_def s1_def using assms(1) by (rule spawn_tracked_d)
  have lp: "last (projectiles s1) = p" "p \<in> set (projectiles s1)"
    by (simp_all add: s1_def p_def keydown_space_d)
  have sc: "mesh p \<in> set (scene s1)"
    by (simp add: s1_def p_def keydown_space_d scene_add_def)
  have hd: "heap s1 (direction p) = d" "heap s1 (mesh p) = x0"
    by (simp_all add: s1_def p_def d_def x0_def keydown_space_d)
  have a: "alive p" by (simp add: p_def)
  have dl: "length_vec d \<le> 1001 / 1000"
    unfolding d_def using assms(2-10) by (rule spawn_direction_length)
  have d2: "length_vec d \<le> 2" using dl by simp
  have any: "\<exists>j \<le> frames es.
               heap (run_d es s1) (direction p) = snd (moved j (x0, d)) \<and>
               heap (run_d es s1) (mesh p) = fst (moved j (x0, d))" for es
  proof -
    obtain j where j: "j \<le> 0 + frames es" "tracked_d p x0 d j (run_d es s1)"
      using tracked_run_d [OF w1 t, of es] by blast
    then show ?thesis by (auto simp: tracked_d_def)
  qed
  have steps: "length_vec (sub_vec (snd (moved (Suc j) (x0, d)))
                              (multiplyScalar (snd (moved j (x0, d))) (1 / 10)))
                   \<le> length_vec (snd (moved j (x0, d))) / 2 ^ 55 + 2 powi (- 1074) \<and>
                 length_vec (snd (moved j (x0, d)))
                   \<le> (1001 / 10000) ^ j * length_vec d + 2 powi (- 1073) \<and>
                 (361 \<le> j \<longrightarrow> snd (moved j (x0, d)) = Vector3 0 0 0)" for j
    unfolding pow2_1074 four_eta
    using moved_direction [of j x0 d] moved_decay [of j x0 d] moved_vanishes [OF d2, of j x0]
    by blast
  have far: "length_vec (sub_vec (heap (run_d es s1) (mesh p)) x0) \<le> 112 / 1000"
    if x: "length_vec x0 \<le> 1000" for es
  proof -
    obtain j where "heap (run_d es s1) (mesh p) = fst (moved j (x0, d))"
      using any [of es] by blast
    then show ?thesis using moved_far [OF x dl, of j] by simp
  qed
  have near: "heap (run_d es s1) (direction p) = snd (moved (frames es) (x0, d)) \<and>
              heap (run_d es s1) (mesh p) = fst (moved (frames es) (x0, d)) \<and>
              length_vec (heap (run_d es s1) (mesh p)) < 10 \<and>
              \<not> 10 < length_d (heap (run_d es s1) (mesh p)) \<and>
              p \<in> set (projectiles (run_d es s1)) \<and>
              mesh p \<in> set (scene (run_d es s1))"
    if x: "length_vec x0 \<le> 9.8" for es
  proof -
    have x': "length_vec x0 \<le> 98 / 10" using x by simp
    have n: "\<forall>i. \<not> 10 < length_d (fst (moved i (x0, d)))"
      using moved_near(3) [OF x' dl] by blast
    note l = live_run_d [OF w1 t lp(2) a sc n, of es]
    have h: "heap (run_d es s1) (direction p) = snd (moved (frames es) (x0, d))"
      "heap (run_d es s1) (mesh p) = fst (moved (frames es) (x0, d))"
      using l by (simp_all add: tracked_d_def)
    show ?thesis
      unfolding h using l moved_near(2,3) [OF x' dl, of "frames es"] by simp
  qed
  show ?thesis
    unfolding Let_def s1_def [symmetric] lp(1) hd x0_def [symmetric]
    using a dl any steps far near by blast
qed

theorem projectile_displacement_bounded_witness:
  "well_formed init \<and> fl (3/4) = 3/4 \<and> fl (1/2) = 1/2 \<and>
   length_vec (heap init cubeMesh) \<le> 9.8 \<and>
   heap one_shot_d 4 = Vector3 1 0 0 \<and>
   heap (run_d [Frame, Frame] one_shot_d) 4 = Vector3 (1441151880758559 / 2 ^ 57) 0 0 \<and>
   heap (run_d [Frame, Frame] one_shot_d) 5 = Vector3 (3963167672086037 / 2 ^ 55) 0 0 \<and>
   \<lparr>mesh = 5, direction = 4, alive = True\<rparr> \<in> set (projectiles (run_d [Frame, Frame] one_shot_d)) \<and>
   5 \<in> set (scene (run_d [Frame, Frame] one_shot_d))"
proof -
  let ?p = "\<lparr>mesh = 5, direction = 4, alive = True\<rparr>"
  let ?x = "heap init cubeMesh"
  have x: "length_vec ?x \<le> 9.8"
    by (simp add: init_def cubeMesh_def camera_def length_vec_def)
  have c: "?x = Vector3 0 0 0"
    by (simp add: init_def cubeMesh_def camera_def)
  have l: "last (projectiles one_shot_d) = ?p"
    by (simp add: one_shot_d_fields)
  have f: "frames [Frame, Frame] = 2" by (simp add: frames_def)
  have r: "fl (3/4) = (3/4 :: real)" "(0::real) \<le> 3/4" "(3/4 :: real) < 1"
    "fl (1/2) = (1/2 :: real)" "(0::real) \<le> 1/2" "(1/2 :: real) < 1"
    by (simp_all add: fl_powers_of_two)
  note t = projectile_displacement_bounded [OF wf_init r(1,2,3) r(4,5,6) r(4,5,6)]
  have "\<forall>es. heap (run_d es one_shot_d) (direction ?p)
              = snd (moved (frames es) (?x, heap one_shot_d (direction ?p))) \<and>
          heap (run_d es one_shot_d) (mesh ?p)
              = fst (moved (frames es) (?x, heap one_shot_d (direction ?p))) \<and>
          length_vec (heap (run_d es one_shot_d) (mesh ?p)) < 10 \<and>
          \<not> 10 < length_d (heap (run_d es one_shot_d) (mesh ?p)) \<and>
          ?p \<in> set (projectiles (run_d es one_shot_d)) \<and>
          mesh ?p \<in> set (scene (run_d es one_shot_d))"
    using t x unfolding Let_def one_shot_d_def [symmetric] l by blast
  from spec [OF this, of "[Frame, Frame]"]
  have "heap (run_d [Frame, Frame] one_shot_d) 4 = snd (moved 2 (Vector3 0 0 0, Vector3 1 0 0)) \<and>
        heap (run_d [Frame, Frame] one_shot_d) 5 = fst (moved 2 (Vector3 0 0 0, Vector3 1 0 0)) \<and>
        ?p \<in> set (projectiles (run_d [Frame, Frame] one_shot_d)) \<and>
        5 \<in> set (scene (run_d [Frame, Frame] one_shot_d))"
    unfolding f c by (simp add: one_shot_d_fields)
  then show ?thesis
    using wf_init x r(1,4) unfolding moved_axis moved1_2
    by (simp add: one_shot_d_fields)
qed

text \<open>
  Claim C9 as stated fails: the distance from the spawn position does not stay below
  \<open>1/9\<close>. With the projectile spawned at the origin with direction \<open>(1, 0, 0)\<close>, the
  first coordinate after sixteen frames is the double \<open>8006399337547549 / 2 ^ 56\<close>
  (printed as 0.11111111111111112), the first double above \<open>1/9\<close>: the sum of the
  rounded steps exceeds the limit of the exact geometric series.
\<close>

theorem displacement_reaches_a_ninth_counterexample:
  "heap one_shot_d 5 = Vector3 0 0 0 \<and>
   heap (run_d (replicate 16 Frame) one_shot_d) 5 = Vector3 (8006399337547549 / 2 ^ 56) 0 0 \<and>
   \<not> length_vec (sub_vec (heap (run_d (replicate 16 Frame) one_shot_d) 5) (heap one_shot_d 5))
       < 1 / 9"
proof -
  let ?p = "\<lparr>mesh = 5, direction = 4, alive = True\<rparr>"
  have w: "well_formed one_shot_d"
    unfolding one_shot_d_def by (rule wf_keydown_d [OF wf_init])
  have i: "fresh init = 3" "heap init cubeMesh = Vector3 0 0 0"
    by (simp_all add: init_def cubeMesh_def camera_def)
  have q: "normalize_d (Vector3 (fl (3/4 - 0.5)) (fl (1/2 - 0.5)) (fl (1/2 - 0.5))) = Vector3 1 0 0"
    by (simp add: fl_powers_of_two normalize_d_quarter)
  have t: "tracked_d ?p (Vector3 0 0 0) (Vector3 1 0 0) 0 one_shot_d"
    using spawn_tracked_d [OF wf_init, of "3/4" "1/2" "1/2"]
    unfolding one_shot_d_def [symmetric] i q by simp
  have n: "\<forall>i. \<not> 10 < length_d (fst (moved i (Vector3 0 0 0, Vector3 1 0 0)))"
    using moved_near(3) [of "Vector3 0 0 0" "Vector3 1 0 0"] by (simp add: length_vec_def)
  have f: "frames (replicate 16 Frame) = 16" by (simp add: frames_def)
  have m: "?p \<in> set (projectiles one_shot_d)" "alive ?p" "mesh ?p \<in> set (scene one_shot_d)"
    by (simp_all add: one_shot_d_fields)
  have "tracked_d ?p (Vector3 0 0 0) (Vector3 1 0 0) (0 + frames (replicate 16 Frame))
          (run_d (replicate 16 Frame) one_shot_d)"
    using live_run_d [OF w t m n, of "replicate 16 Frame"] by blast
  then have "heap (run_d (replicate 16 Frame) one_shot_d) 5
             = fst (moved 16 (Vector3 0 0 0, Vector3 1 0 0))"
    unfolding f by (simp add: tracked_d_def)
  then have "heap (run_d (replicate 16 Frame) one_shot_d) 5
             = Vector3 (8006399337547549 / 2 ^ 56) 0 0"
    unfolding moved_axis moved1_16 by simp
  then show ?thesis
    by (simp add: one_shot_d_fields sub_vec_def)
qed

section \<open>Spawning copies the position\<close>

text \<open>
  Claim C10. Pressing space in a well-formed state appends one projectile to the
  collection and its mesh to the scene, and changes nothing else: every existing vector
  (the cube's and the camera's positions among them) and every other variable (the
  uniforms among them) keeps its value. The projectile's position and direction are new
  objects, different from the cube's and the camera's position objects, and the position
  holds a copy of the cube's position. Any later sequence of key presses leaves the
  position and direction of every projectile of the collection unchanged.
\<close>

theorem spawn_copies_position:
  assumes "well_formed s"
  shows "(let s1 = keydown '' '' r1 r2 r3 s; p = last (projectiles s1) in
            projectiles s1 = projectiles s @ [p] \<and> scene s1 = scene s @ [mesh p] \<and>
            s1\<lparr>heap := heap s, fresh := fresh s, scene := scene s,
               projectiles := projectiles s\<rparr> = s \<and>
            (\<forall>r < fresh s. heap s1 r = heap s r) \<and>
            fresh s \<le> mesh p \<and> fresh s \<le> direction p \<and>
            mesh p \<noteq> cubeMesh \<and> mesh p \<noteq> camera \<and>
            heap s1 (mesh p) = heap s cubeMesh \<and>
            (\<forall>ks. \<forall>q \<in> set (projectiles s1).
               heap (run (map (\<lambda>(k, a, b, c). KeyDown k a b c) ks) s1) (mesh q)
                 = heap s1 (mesh q) \<and>
               heap (run (map (\<lambda>(k, a, b, c). KeyDown k a b c) ks) s1) (direction q)
                 = heap s1 (direction q)))"
proof -
  define s1 where "s1 = keydown '' '' r1 r2 r3 s"
  define p where "p = \<lparr>mesh = Suc (Suc (fresh s)), direction = Suc (fresh s), alive = True\<rparr>"
  have w1: "well_formed s1" unfolding s1_def using assms by (rule wf_keydown)
  have lp: "last (projectiles s1) = p" "projectiles s1 = projectiles s @ [p]"
    by (simp_all add: s1_def p_def keydown_space)
  have n: "Suc (Suc (fresh s)) \<notin> set (scene s)"
    using assms by (intro below_notin [of "fresh s"]) (simp_all add: well_formed_def)
  have sc: "scene s1 = scene s @ [mesh p]"
    using n by (simp add: s1_def p_def keydown_space scene_add_def remove1_idem)
  have fr: "s1\<lparr>heap := heap s, fresh := fresh s, scene := scene s,
               projectiles := projectiles s\<rparr> = s"
    by (simp add: s1_def keydown_space)
  have old: "\<forall>r < fresh s. heap s1 r = heap s r"
    by (simp add: s1_def keydown_space)
  have cc: "cubeMesh < fresh s" "camera < fresh s"
    using assms by (simp_all add: well_formed_def fixed_refs_def)
  have new: "fresh s \<le> mesh p" "fresh s \<le> direction p" "mesh p \<noteq> cubeMesh" "mesh p \<noteq> camera"
    using cc by (simp_all add: p_def)
  have pos: "heap s1 (mesh p) = heap s cubeMesh"
    by (simp add: s1_def p_def keydown_space)
  have later: "\<forall>q \<in> set (projectiles s1).
               heap (run (map (\<lambda>(k, a, b, c). KeyDown k a b c) ks) s1) (mesh q)
                 = heap s1 (mesh q) \<and>
               heap (run (map (\<lambda>(k, a, b, c). KeyDown k a b c) ks) s1) (direction q)
                 = heap s1 (direction q)" for ks
    using keys_leave_projectiles [OF w1] by blast
  show ?thesis
    unfolding Let_def s1_def [symmetric] lp(1)
    using lp(2) sc fr old new pos later by blast
qed

theorem spawn_copies_position_witness:
  "well_formed init \<and>
   heap (run [KeyDown ''w'' 0 0 0, KeyDown ''a'' 0 0 0] one_shot) 5 = Vector3 0 0 0 \<and>
   heap (run [KeyDown ''w'' 0 0 0, KeyDown ''a'' 0 0 0] one_shot) cubeMesh = Vector3 0 0.1 0"
proof -
  let ?p = "\<lparr>mesh = 5, direction = 4, alive = True\<rparr>"
  have l: "last (projectiles one_shot) = ?p" "?p \<in> set (projectiles one_shot)"
    by (simp_all add: one_shot_fields)
  note t = spawn_copies_position [OF wf_init, of "3/4" "1/2" "1/2"]
  have "\<forall>ks. \<forall>q \<in> set (projectiles one_shot).
               heap (run (map (\<lambda>(k, a, b, c). KeyDown k a b c) ks) one_shot) (mesh q)
                 = heap one_shot (mesh q) \<and>
               heap (run (map (\<lambda>(k, a, b, c). KeyDown k a b c) ks) one_shot) (direction q)
                 = heap one_shot (direction q)"
    using t unfolding Let_def one_shot_def [symmetric] by blast
  from spec [OF this, of "[(''w'', 0, 0, 0), (''a'', 0, 0, 0)]"] l(2)
  have "heap (run [KeyDown ''w'' 0 0 0, KeyDown ''a'' 0 0 0] one_shot) 5 = heap one_shot 5"
    by fastforce
  moreover have "heap one_shot cubeMesh = Vector3 0 0 0"
    by (simp add: one_shot_def keydown_space init_def cubeMesh_def camera_def)
  then have "heap (run [KeyDown ''w'' 0 0 0, KeyDown ''a'' 0 0 0] one_shot) cubeMesh
                 = Vector3 0 0.1 0"
    by (simp add: keydown_def set_y_def set_x_def cubeMesh_def camera_def)
  ultimately show ?thesis
    using wf_init by (simp add: one_shot_fields)
qed

end

